theory Spec2Isabelle
  imports Complex_Main
begin

section \<open>Strings of the source language\<close>

text \<open>
  The program is a Python script; its strings are sequences of code points. Here a
  character is a \<^typ>\<open>char\<close>, read as the code point of the same number, so the model
  covers the strings whose code points are below 256 (ASCII and the Latin-1 block). The
  classifications below are those of Python's \<^verbatim>\<open>str\<close> methods on that range.
\<close>

definition isspace :: "char \<Rightarrow> bool" where
  \<comment> \<open>\<^verbatim>\<open>str.isspace\<close> on one character: TAB, LF, VT, FF, CR, the separators
      FS, GS, RS, US, the space, NEL and the no-break space.\<close>
  "isspace c =
     (let n = (of_char c :: nat)
      in (9 \<le> n \<and> n \<le> 13) \<or> (28 \<le> n \<and> n \<le> 32) \<or> n = 133 \<or> n = 160)"

definition is_decimal :: "char \<Rightarrow> bool" where
  \<comment> \<open>the characters \<^verbatim>\<open>0\<close> to \<^verbatim>\<open>9\<close>, the only ones with a decimal value\<close>
  "is_decimal c = (let n = (of_char c :: nat) in 48 \<le> n \<and> n \<le> 57)"

definition isdigit_char :: "char \<Rightarrow> bool" where
  \<comment> \<open>\<^verbatim>\<open>str.isdigit\<close> on one character: the decimal digits and, besides them, the
      superscript digits two, three (code points 178, 179) and one (185)\<close>
  "isdigit_char c =
     (let n = (of_char c :: nat) in (48 \<le> n \<and> n \<le> 57) \<or> n = 178 \<or> n = 179 \<or> n = 185)"

definition isdigit :: "string \<Rightarrow> bool" where
  \<comment> \<open>\<^verbatim>\<open>str.isdigit\<close>: every character is a digit and there is at least one\<close>
  "isdigit s = (s \<noteq> [] \<and> list_all isdigit_char s)"

definition strip :: "string \<Rightarrow> string" where
  \<comment> \<open>\<^verbatim>\<open>str.strip()\<close>: whitespace removed at both ends\<close>
  "strip s = rev (dropWhile isspace (rev (dropWhile isspace s)))"

definition zfill :: "nat \<Rightarrow> string \<Rightarrow> string" where
  \<comment> \<open>\<^verbatim>\<open>str.zfill(width)\<close>: zeros on the left, after a leading sign if there is one\<close>
  "zfill width s =
     (case s of
        c # cs \<Rightarrow>
          if c = CHR ''+'' \<or> c = CHR ''-''
          then c # replicate (width - length s) CHR ''0'' @ cs
          else replicate (width - length s) CHR ''0'' @ s
      | [] \<Rightarrow> replicate width CHR ''0'')"

definition slice_to_neg :: "string \<Rightarrow> nat \<Rightarrow> string" where
  \<comment> \<open>\<^verbatim>\<open>s[:-k]\<close> for \<open>k > 0\<close>\<close>
  "slice_to_neg s k = take (length s - k) s"

definition slice_neg :: "string \<Rightarrow> nat \<Rightarrow> nat \<Rightarrow> string" where
  \<comment> \<open>\<^verbatim>\<open>s[-j:-k]\<close> for \<open>j > k > 0\<close>\<close>
  "slice_neg s j k = drop (length s - j) (take (length s - k) s)"

definition slice_from_neg :: "string \<Rightarrow> nat \<Rightarrow> string" where
  \<comment> \<open>\<^verbatim>\<open>s[-j:]\<close> for \<open>j > 0\<close>\<close>
  "slice_from_neg s j = drop (length s - j) s"

definition digit_val :: "char \<Rightarrow> int" where
  "digit_val c = int (of_char c) - 48"

definition decimal_value :: "string \<Rightarrow> int" where
  \<comment> \<open>the number a string of decimal digits denotes\<close>
  "decimal_value s = foldl (\<lambda>a c. 10 * a + digit_val c) 0 s"

section \<open>The time code parser\<close>

datatype error =
    NonDigit              \<comment> \<open>ValueError, "Only digits expected in HHMMSS form."\<close>
  | BadLength             \<comment> \<open>ValueError, "String length should be from 1 to 6 digits ..."\<close>
  | InvalidLiteral string \<comment> \<open>ValueError of \<^verbatim>\<open>int()\<close>, with the text it refused\<close>

definition py_int :: "string \<Rightarrow> error + int" where
  \<comment> \<open>\<^verbatim>\<open>int(s)\<close> on a string of \<^verbatim>\<open>isdigit\<close> characters (no sign, space or
      underscore): the value when every character is a decimal digit, ValueError
      otherwise\<close>
  "py_int s =
     (if s \<noteq> [] \<and> list_all is_decimal s then Inr (decimal_value s)
      else Inl (InvalidLiteral s))"

definition parse_time :: "string \<Rightarrow> error + int" where
  "parse_time time_str =
     (let clean = strip time_str in
      if \<not> isdigit clean then Inl NonDigit
      else
        let length = length clean in
        if length > 6 \<or> length < 1 then Inl BadLength
        else
          let clean_padded = zfill 6 clean in
          case (if length > 4 then py_int (slice_to_neg clean_padded 4) else Inr 0) of
            Inl e \<Rightarrow> Inl e
          | Inr hours \<Rightarrow>
              (case (if length > 2 then py_int (slice_neg clean_padded 4 2) else Inr 0) of
                 Inl e \<Rightarrow> Inl e
               | Inr minutes \<Rightarrow>
                   (case py_int (slice_from_neg clean_padded 2) of
                      Inl e \<Rightarrow> Inl e
                    | Inr seconds \<Rightarrow> Inr (hours * 3600 + minutes * 60 + seconds))))"

text \<open>
  The specification's reading of a compact time code: the digit string is padded with
  zeros on the left to six characters, and the character positions 0-1, 2-3 and 4-5
  are the hours, the minutes and the seconds.
\<close>

definition spec_timecode :: "string \<Rightarrow> int" where
  "spec_timecode digits =
     (let padded = replicate (6 - length digits) CHR ''0'' @ digits;
          hours = decimal_value (take 2 padded);
          minutes = decimal_value (take 2 (drop 2 padded));
          seconds = decimal_value (take 2 (drop 4 padded))
      in hours * 3600 + minutes * 60 + seconds)"

section \<open>The time code formatter\<close>

fun str_nat :: "nat \<Rightarrow> string" where
  \<comment> \<open>\<^verbatim>\<open>str(n)\<close> of an integer \<open>n \<ge> 0\<close>: its decimal digits, no leading zero\<close>
  "str_nat n =
     (if n < 10 then [char_of (48 + n)]
      else str_nat (n div 10) @ [char_of (48 + n mod 10)])"

declare str_nat.simps [simp del]

definition str_int :: "int \<Rightarrow> string" where
  \<comment> \<open>\<^verbatim>\<open>str(i)\<close> of an integer\<close>
  "str_int i = (if i < 0 then CHR ''-'' # str_nat (nat (- i)) else str_nat (nat i))"

definition fmt_02d :: "int \<Rightarrow> string" where
  \<comment> \<open>the format \<^verbatim>\<open>{i:02d}\<close>: at least two characters, zeros after the sign\<close>
  "fmt_02d i = zfill 2 (str_int i)"

definition round_half_even :: "rat \<Rightarrow> int" where
  \<comment> \<open>the nearest integer, a tie going to the even one\<close>
  "round_half_even y =
     (let f = \<lfloor>y\<rfloor>; d = y - of_int f
      in if d < 1 / 2 then f
         else if 1 / 2 < d then f + 1
         else if even f then f else f + 1)"

definition fmt_06_3f :: "rat \<Rightarrow> string" where
  \<comment> \<open>the format \<^verbatim>\<open>{x:06.3f}\<close>: three decimals, correctly rounded, at least six
      characters, zeros after the sign\<close>
  "fmt_06_3f x =
     (let m = round_half_even (\<bar>x\<bar> * 1000);
          body = str_nat (nat (m div 1000)) @ ''.'' @ zfill 3 (str_nat (nat (m mod 1000)))
      in zfill 6 (if x < 0 then CHR ''-'' # body else body))"

definition floordiv :: "rat \<Rightarrow> rat \<Rightarrow> int" where
  \<comment> \<open>\<^verbatim>\<open>int(x // y)\<close>\<close>
  "floordiv x y = \<lfloor>x / y\<rfloor>"

definition pymod :: "rat \<Rightarrow> rat \<Rightarrow> rat" where
  \<comment> \<open>\<^verbatim>\<open>x % y\<close>: the remainder of the floor division\<close>
  "pymod x y = x - of_int \<lfloor>x / y\<rfloor> * y"

text \<open>
  \<^verbatim>\<open>format_time\<close> takes a number of seconds. The argument is an exact number here: an
  integer, which is all the program ever passes, or a fraction. On integers
  \<open>floordiv\<close> and \<open>pymod\<close> are Python's \<^verbatim>\<open>//\<close> and \<^verbatim>\<open>%\<close>. Binary floating point
  arguments, whose arithmetic rounds, are not represented.
\<close>

definition format_time :: "rat \<Rightarrow> string" where
  "format_time seconds =
     (let hours = floordiv seconds 3600;
          minutes = floordiv (pymod seconds 3600) 60;
          secs = pymod seconds 60
      in fmt_02d hours @ '':'' @ fmt_02d minutes @ '':'' @ fmt_06_3f secs)"

section \<open>The environment of a run\<close>

text \<open>
  Everything the script reads from outside is a field of the \<open>world\<close>: the command
  line, the lines typed at the console, where the program is installed, the file
  system, and what running the external tool gives. A path is its text, the string
  \<^verbatim>\<open>str(path)\<close>: \<open>path_text\<close> is \<^verbatim>\<open>str(Path(s))\<close>, the text in which
  \<^verbatim>\<open>pathlib\<close> keeps the path written \<open>s\<close>, \<open>os_sep\<close> is the separator of the
  platform, \<open>path_stem\<close> and \<open>path_suffix\<close> are \<^verbatim>\<open>pathlib\<close>'s \<^verbatim>\<open>stem\<close> and
  \<^verbatim>\<open>suffix\<close> of a path, and \<open>megabytes\<close> is the rendering
  \<^verbatim>\<open>{size / (1024*1024):.2f}\<close> of a size in bytes. The two directories are the
  absolute directories \<^verbatim>\<open>Path(sys.executable).parent.absolute()\<close> and
  \<^verbatim>\<open>Path(__file__).parent.absolute()\<close>.
\<close>

datatype proc =
    Exited int string  \<comment> \<open>the process ran: its return code and its captured stderr,
                            decoded as text\<close>
  | NotFound           \<comment> \<open>FileNotFoundError: there is no such executable\<close>
  | Raised string      \<comment> \<open>any other exception of \<^verbatim>\<open>subprocess.run\<close>, a stderr that
                            does not decode among them\<close>

record world =
  argv :: "string list"
  stdin :: "string list"
  frozen :: bool
  executable_parent :: string
  file_parent :: string
  os_sep :: char
  path_text :: "string \<Rightarrow> string"
  files :: "string list"
  is_file :: "string \<Rightarrow> bool"
  st_size :: "string \<Rightarrow> nat"
  path_stem :: "string \<Rightarrow> string"
  path_suffix :: "string \<Rightarrow> string"
  run :: "string list \<Rightarrow> proc"
  stat_after :: "string \<Rightarrow> nat option"
  megabytes :: "nat \<Rightarrow> string"

text \<open>
  What a run does is the list of its events, in order, and how it ends. \<open>Input p l\<close>
  is a call \<^verbatim>\<open>input(p)\<close>: \<open>l\<close> is the line it read, or \<open>None\<close> at the end of the
  input, where \<^verbatim>\<open>input\<close> raises EOFError.
\<close>

datatype event =
    Print string
  | Input string "string option"
  | Run "string list"

datatype exn = EOFError | FileNotFoundError | OtherError string

datatype outcome =
    Returned      \<comment> \<open>\<^verbatim>\<open>main\<close> returned\<close>
  | SysExit int   \<comment> \<open>\<^verbatim>\<open>sys.exit(code)\<close>\<close>
  | Uncaught exn  \<comment> \<open>an exception nobody caught\<close>

fun exit_code :: "outcome \<Rightarrow> int" where
  "exit_code Returned = 0"
| "exit_code (SysExit code) = code"
| "exit_code (Uncaught e) = 1"

definition nl :: string where
  "nl = [CHR 0x0A]"

definition get_base_path :: "world \<Rightarrow> string" where
  "get_base_path w = (if frozen w then executable_parent w else file_parent w)"

definition joinpath :: "char \<Rightarrow> string \<Rightarrow> string \<Rightarrow> string" where
  \<comment> \<open>the text of \<^verbatim>\<open>d / n\<close> for an absolute directory \<open>d\<close> and a file name \<open>n\<close>
      (one component, no separator in it): a root directory ends with the separator
      already\<close>
  "joinpath s d n = (if d \<noteq> [] \<and> last d = s then d @ n else d @ s # n)"

definition path_exists :: "world \<Rightarrow> string \<Rightarrow> bool" where
  "path_exists w p = (p \<in> set (files w))"

section \<open>The output path\<close>

text \<open>
  The loop that looks for an unused name ends because the numbered names are all
  different and the file system holds finitely many files. The facts about \<open>str_nat\<close>
  that its termination rests on come first.
\<close>

lemma str_nat_digits: "list_all is_decimal (str_nat n) \<and> str_nat n \<noteq> []"
proof (induction n rule: str_nat.induct)
  case (1 n)
  show ?case
  proof (cases "n < 10")
    case True
    then show ?thesis
      by (subst (1 2) str_nat.simps) (simp add: is_decimal_def)
  next
    case False
    have "n mod 10 < 10" by simp
    then have "is_decimal (char_of (48 + n mod 10))"
      by (simp add: is_decimal_def)
    with False 1 show ?thesis
      by (subst (1 2) str_nat.simps) simp
  qed
qed

lemma decimal_value_snoc: "decimal_value (xs @ [c]) = 10 * decimal_value xs + digit_val c"
  by (simp add: decimal_value_def)

lemma decimal_value_str_nat: "decimal_value (str_nat n) = int n"
proof (induction n rule: str_nat.induct)
  case (1 n)
  show ?case
  proof (cases "n < 10")
    case True
    then show ?thesis
      by (subst str_nat.simps) (simp add: decimal_value_def digit_val_def)
  next
    case False
    have "n mod 10 < 10" by simp
    then have "digit_val (char_of (48 + n mod 10)) = int (n mod 10)"
      by (simp add: digit_val_def)
    with False 1 have "decimal_value (str_nat n) = 10 * int (n div 10) + int (n mod 10)"
      by (subst str_nat.simps) (simp add: decimal_value_snoc)
    then show ?thesis by (simp add: zdiv_int zmod_int)
  qed
qed

lemma str_nat_inject:
  assumes "str_nat a = str_nat b"
  shows "a = b"
proof -
  have "int a = decimal_value (str_nat a)"
    by (simp only: decimal_value_str_nat)
  also have "\<dots> = decimal_value (str_nat b)"
    by (simp only: assms)
  also have "\<dots> = int b"
    by (simp only: decimal_value_str_nat)
  finally show ?thesis by simp
qed

lemma finite_numbered:
  assumes "\<And>a b. f a = f b \<Longrightarrow> a = b"
  shows "finite {k. c \<le> k \<and> f (str_nat k) \<in> set fs}"
proof -
  have "inj (\<lambda>k. f (str_nat k))"
    using assms str_nat_inject by (auto simp: inj_def)
  then have "finite ((\<lambda>k. f (str_nat k)) -` set fs)"
    by (intro finite_vimageI) simp_all
  moreover have "{k. c \<le> k \<and> f (str_nat k) \<in> set fs} \<subseteq> (\<lambda>k. f (str_nat k)) -` set fs"
    by auto
  ultimately show ?thesis by (rule rev_finite_subset)
qed

lemma card_numbered_less:
  assumes "\<And>a b. f a = f b \<Longrightarrow> a = b" and "f (str_nat c) \<in> set fs"
  shows "card {k. Suc c \<le> k \<and> f (str_nat k) \<in> set fs}
           < card {k. c \<le> k \<and> f (str_nat k) \<in> set fs}"
proof (rule psubset_card_mono)
  show "finite {k. c \<le> k \<and> f (str_nat k) \<in> set fs}"
    using assms(1) by (rule finite_numbered)
  have "c \<in> {k. c \<le> k \<and> f (str_nat k) \<in> set fs}" using assms(2) by simp
  moreover have "c \<notin> {k. Suc c \<le> k \<and> f (str_nat k) \<in> set fs}" by simp
  moreover have "{k. Suc c \<le> k \<and> f (str_nat k) \<in> set fs}
                   \<subseteq> {k. c \<le> k \<and> f (str_nat k) \<in> set fs}" by auto
  ultimately show "{k. Suc c \<le> k \<and> f (str_nat k) \<in> set fs}
                     \<subset> {k. c \<le> k \<and> f (str_nat k) \<in> set fs}" by blast
qed

function counter_loop ::
  "string list \<Rightarrow> char \<Rightarrow> string \<Rightarrow> string \<Rightarrow> string \<Rightarrow> string \<Rightarrow> string \<Rightarrow> string \<Rightarrow> nat \<Rightarrow> string"
where
  "counter_loop fs s script_dir input_stem start_input end_input input_suffix output_path counter =
     (if output_path \<in> set fs
      then counter_loop fs s script_dir input_stem start_input end_input input_suffix
             (joinpath s script_dir
                (input_stem @ ''_'' @ start_input @ ''_'' @ end_input @ ''_''
                   @ str_nat counter @ input_suffix))
             (counter + 1)
      else output_path)"
  by pat_completeness auto
termination
proof (relation "measure (\<lambda>(fs, s, script_dir, input_stem, start_input, end_input,
    input_suffix, output_path, counter).
      if output_path \<in> set fs
      then Suc (card {k. counter \<le> k \<and>
             joinpath s script_dir
               (input_stem @ ''_'' @ start_input @ ''_'' @ end_input @ ''_''
                  @ str_nat k @ input_suffix) \<in> set fs})
      else 0)", goal_cases)
  case 1
  show ?case by simp
next
  case (2 fs s script_dir input_stem start_input end_input input_suffix output_path counter)
  define f where "f = (\<lambda>t. joinpath s script_dir
    (input_stem @ ''_'' @ start_input @ ''_'' @ end_input @ ''_'' @ t @ input_suffix))"
  have inj: "f a = f b \<Longrightarrow> a = b" for a b
    by (simp add: f_def joinpath_def split: if_splits)
  have less: "f (str_nat counter) \<in> set fs \<Longrightarrow>
      card {k. Suc counter \<le> k \<and> f (str_nat k) \<in> set fs}
        < card {k. counter \<le> k \<and> f (str_nat k) \<in> set fs}"
    using inj by (rule card_numbered_less)
  show ?case
  proof (cases "f (str_nat counter) \<in> set fs")
    case True
    with less 2 show ?thesis by (simp add: f_def)
  next
    case False
    with 2 show ?thesis by (simp add: f_def)
  qed
qed

declare counter_loop.simps [simp del]

definition resolve_output_path :: "world \<Rightarrow> string \<Rightarrow> string \<Rightarrow> string \<Rightarrow> string" where
  \<comment> \<open>lines 152 to 164 of \<^verbatim>\<open>main\<close>\<close>
  "resolve_output_path w input_path start_input end_input =
     (let script_dir = get_base_path w;
          input_stem = path_stem w input_path;
          input_suffix = path_suffix w input_path;
          output_path = joinpath (os_sep w) script_dir
            (input_stem @ ''_'' @ start_input @ ''_'' @ end_input @ input_suffix)
      in counter_loop (files w) (os_sep w) script_dir input_stem start_input end_input input_suffix
           output_path 1)"

section \<open>Running the external tool\<close>

fun join :: "string \<Rightarrow> string list \<Rightarrow> string" where
  \<comment> \<open>\<^verbatim>\<open>sep.join(xs)\<close>\<close>
  "join sep [] = []"
| "join sep [x] = x"
| "join sep (x # y # ys) = x @ sep @ join sep (y # ys)"

definition ffmpeg_cmd :: "world \<Rightarrow> string \<Rightarrow> int \<Rightarrow> int \<Rightarrow> string \<Rightarrow> string list" where
  \<comment> \<open>the list \<^verbatim>\<open>cmd\<close> of \<^verbatim>\<open>cut_video\<close>, lines 51 to 74\<close>
  "ffmpeg_cmd w input_path start_time end_time output_path =
     (let duration = end_time - start_time;
          base_path = get_base_path w;
          local_ffmpeg = joinpath (os_sep w) base_path ''ffmpeg.exe'';
          ffmpeg_exe = (if path_exists w local_ffmpeg then local_ffmpeg else ''ffmpeg'')
      in [ffmpeg_exe,
          ''-ss'', format_time (of_int start_time),
          ''-i'', input_path,
          ''-t'', format_time (of_int duration),
          ''-c'', ''copy'',
          ''-map'', ''0'',
          ''-avoid_negative_ts'', ''make_zero'',
          output_path,
          ''-y''])"

definition cut_video :: "world \<Rightarrow> string \<Rightarrow> int \<Rightarrow> int \<Rightarrow> string \<Rightarrow> event list \<times> (exn + bool)" where
  "cut_video w input_path start_time end_time output_path =
     (let cmd = ffmpeg_cmd w input_path start_time end_time output_path;
          announced =
            [Print (nl @ ''Executing ffmpeg command (fast copy mode, no re-encoding)...''),
             Print (''Command: '' @ join '' '' cmd @ nl),
             Run cmd]
      in case run w cmd of
           Exited returncode stderr \<Rightarrow>
             if returncode = 0
             then (announced @ [Print ''Video cutting completed!''], Inr True)
             else (announced @
                     [Print ''Error: ffmpeg execution failed'',
                      Print (''Error message: '' @ stderr)], Inr False)
         | NotFound \<Rightarrow>
             (announced @
                [Print ''Error: ffmpeg not found. Please ensure ffmpeg is installed and added to system PATH.''],
              Inr False)
         | Raised e \<Rightarrow> (announced, Inl (OtherError e)))"

section \<open>The interactive session\<close>

definition lower_char :: "char \<Rightarrow> char" where
  \<comment> \<open>\<^verbatim>\<open>str.lower\<close> on one character: the capital letters of ASCII and of Latin-1\<close>
  "lower_char c =
     (let n = (of_char c :: nat)
      in if (65 \<le> n \<and> n \<le> 90) \<or> (192 \<le> n \<and> n \<le> 222 \<and> n \<noteq> 215)
         then char_of (n + 32) else c)"

definition lower :: "string \<Rightarrow> string" where
  "lower s = map lower_char s"

fun error_text :: "error \<Rightarrow> string" where
  \<comment> \<open>\<^verbatim>\<open>str(e)\<close> of the ValueError\<close>
  "error_text NonDigit = ''Invalid time format: Only digits expected in HHMMSS form.''"
| "error_text BadLength =
     ''Invalid time format: String length should be from 1 to 6 digits (HHMMSS, MMSS, SS).''"
| "error_text (InvalidLiteral t) =
     ''invalid literal for int() with base 10: '' @ [CHR 0x27] @ t @ [CHR 0x27]"

definition start_prompt :: string where
  "start_prompt = ''Please enter start time (format: HHMMSS): ''"

definition end_prompt :: string where
  "end_prompt = ''Please enter end time (format: HHMMSS): ''"

definition confirm_prompt :: string where
  "confirm_prompt = nl @ ''Confirm cutting? (Y/n): ''"

definition exit_prompt :: string where
  "exit_prompt = nl @ ''Press Enter to exit...''"

definition negative_start :: string where
  "negative_start = ''Error: Start time cannot be negative''"

fun start_loop :: "string list \<Rightarrow> event list \<times> (string \<times> int \<times> string list) option" where
  \<comment> \<open>lines 122 to 132: the events, and at the break the text kept, its value and the
      lines not read yet; \<open>None\<close> when the input ends first\<close>
  "start_loop [] = ([Input start_prompt None], None)"
| "start_loop (l # ls) =
     (let start_input = strip l in
      case parse_time start_input of
        Inr start_time \<Rightarrow>
          if start_time < 0
          then (let (evs, r) = start_loop ls
                in (Input start_prompt (Some l) # Print negative_start # evs, r))
          else ([Input start_prompt (Some l)], Some (start_input, start_time, ls))
      | Inl e \<Rightarrow>
          (let (evs, r) = start_loop ls
           in (Input start_prompt (Some l)
                 # Print (''Error: Invalid time format - '' @ error_text e) # evs, r)))"

fun end_loop :: "int \<Rightarrow> string list \<Rightarrow> event list \<times> (string \<times> int \<times> string list) option" where
  \<comment> \<open>lines 135 to 145\<close>
  "end_loop start_time [] = ([Input end_prompt None], None)"
| "end_loop start_time (l # ls) =
     (let end_input = strip l in
      case parse_time end_input of
        Inr end_time \<Rightarrow>
          if end_time \<le> start_time
          then (let (evs, r) = end_loop start_time ls
                in (Input end_prompt (Some l)
                      # Print ''Error: End time must be greater than start time'' # evs, r))
          else ([Input end_prompt (Some l)], Some (end_input, end_time, ls))
      | Inl e \<Rightarrow>
          (let (evs, r) = end_loop start_time ls
           in (Input end_prompt (Some l)
                 # Print (''Error: Invalid time format - '' @ error_text e) # evs, r)))"

definition after :: "event list \<Rightarrow> event list \<times> outcome \<Rightarrow> event list \<times> outcome" where
  \<comment> \<open>the events so far, then the rest of the run\<close>
  "after evs r = (evs @ fst r, snd r)"

definition pause_then :: "string list \<Rightarrow> outcome \<Rightarrow> event list \<times> outcome" where
  \<comment> \<open>\<^verbatim>\<open>input("\nPress Enter to exit...")\<close>, then the run ends as given\<close>
  "pause_then ls ending =
     (case ls of
        [] \<Rightarrow> ([Input exit_prompt None], Uncaught EOFError)
      | l # _ \<Rightarrow> ([Input exit_prompt (Some l)], ending))"

definition confirm_and_cut ::
  "world \<Rightarrow> string \<Rightarrow> int \<Rightarrow> int \<Rightarrow> string \<Rightarrow> string list \<Rightarrow> event list \<times> outcome" where
  \<comment> \<open>lines 168 to 182 of \<^verbatim>\<open>main\<close>\<close>
  "confirm_and_cut w input_path start_time end_time output_path ls =
     (case ls of
        [] \<Rightarrow> ([Input confirm_prompt None], Uncaught EOFError)
      | l # ls' \<Rightarrow>
          let confirm = lower (strip l) in
          after [Input confirm_prompt (Some l)]
            (if confirm \<notin> {[], ''y''}
             then ([Print ''Operation cancelled.''], SysExit 0)
             else
               case cut_video w input_path start_time end_time output_path of
                 (evs, Inl e) \<Rightarrow> (evs, Uncaught e)
               | (evs, Inr success) \<Rightarrow>
                   after evs
                     (if success
                      then
                        after [Print (nl @ ''Output file saved to: '' @ output_path)]
                          (case stat_after w output_path of
                             None \<Rightarrow> ([], Uncaught FileNotFoundError)
                           | Some bytes \<Rightarrow>
                               after [Print (''Output file size: '' @ megabytes w bytes @ '' MB'')]
                                 (pause_then ls' Returned))
                      else pause_then ls' Returned)))"

definition main :: "world \<Rightarrow> event list \<times> outcome" where
  "main w =
     (if length (argv w) < 2
      then
        after
          [Print ''Please drag a video file onto this script, or provide the video file path via command line.'',
           Print ''Usage: python python.py <video_file>'']
          (pause_then (stdin w) (SysExit 1))
      else
        let input_path = path_text w (argv w ! 1) in
        if \<not> path_exists w input_path
        then after [Print (''Error: File does not exist: '' @ input_path)]
               (pause_then (stdin w) (SysExit 1))
        else if \<not> is_file w input_path
        then after [Print (''Error: Not a valid file: '' @ input_path)]
               (pause_then (stdin w) (SysExit 1))
        else
          after
            [Print (''Input file: '' @ input_path),
             Print (''File size: '' @ megabytes w (st_size w input_path) @ '' MB'')]
            (case start_loop (stdin w) of
               (evs1, None) \<Rightarrow> (evs1, Uncaught EOFError)
             | (evs1, Some (start_input, start_time, ls1)) \<Rightarrow>
                 after evs1
                   (case end_loop start_time ls1 of
                      (evs2, None) \<Rightarrow> (evs2, Uncaught EOFError)
                    | (evs2, Some (end_input, end_time, ls2)) \<Rightarrow>
                        let output_path =
                              resolve_output_path w input_path start_input end_input
                        in after
                             (evs2 @
                              [Print (nl @ ''Start time: '' @ format_time (of_int start_time)),
                               Print (''End time: '' @ format_time (of_int end_time)),
                               Print (''Duration: ''
                                        @ format_time (of_int (end_time - start_time))),
                               Print (''Output file: '' @ output_path @ nl)])
                             (confirm_and_cut w input_path start_time end_time
                                output_path ls2))))"

section \<open>Facts about the parser\<close>

lemma is_decimal_isdigit_char: "is_decimal c \<Longrightarrow> isdigit_char c"
  by (simp add: is_decimal_def isdigit_char_def Let_def)

lemma isdigit_char_not_sign: "isdigit_char c \<Longrightarrow> c \<noteq> CHR ''+'' \<and> c \<noteq> CHR ''-''"
  by (auto simp: isdigit_char_def Let_def)

lemma zfill_isdigit:
  "isdigit s \<Longrightarrow> zfill n s = replicate (n - length s) CHR ''0'' @ s"
  by (cases s) (auto simp: zfill_def isdigit_def dest: isdigit_char_not_sign)

lemma digit_val_range: "is_decimal c \<Longrightarrow> 0 \<le> digit_val c \<and> digit_val c \<le> 9"
  by (auto simp: is_decimal_def digit_val_def Let_def)

lemma is_decimal_zero: "is_decimal CHR ''0''" "isdigit_char CHR ''0''" "digit_val CHR ''0'' = 0"
  by (simp_all add: is_decimal_def isdigit_char_def digit_val_def)

lemma decimal_value_append:
  "decimal_value (xs @ ys) = decimal_value xs * 10 ^ length ys + decimal_value ys"
proof -
  define f where "f = (\<lambda>(a::int) c. 10 * a + digit_val c)"
  have gen: "foldl f a ys = a * 10 ^ length ys + foldl f 0 ys" for a
  proof (induction ys arbitrary: a rule: rev_induct)
    case Nil
    then show ?case by simp
  next
    case (snoc y ys)
    have "foldl f a (ys @ [y]) = 10 * foldl f a ys + digit_val y"
      by (simp add: f_def)
    also have "\<dots> = 10 * (a * 10 ^ length ys + foldl f 0 ys) + digit_val y"
      by (simp only: snoc.IH [of a])
    also have "\<dots> = a * 10 ^ length (ys @ [y]) + (10 * foldl f 0 ys + digit_val y)"
      by (simp add: algebra_simps)
    also have "10 * foldl f 0 ys + digit_val y = foldl f 0 (ys @ [y])"
      by (simp add: f_def)
    finally show ?case .
  qed
  have "foldl f 0 (xs @ ys) = foldl f (foldl f 0 xs) ys"
    by simp
  also have "\<dots> = foldl f 0 xs * 10 ^ length ys + foldl f 0 ys"
    by (rule gen)
  finally show ?thesis
    unfolding decimal_value_def f_def .
qed

lemma decimal_value_zeros: "decimal_value (replicate k CHR ''0'') = 0"
proof (induction k)
  case 0
  then show ?case by (simp add: decimal_value_def)
next
  case (Suc k)
  have "replicate (Suc k) CHR ''0'' = replicate k CHR ''0'' @ [CHR ''0'']"
    by (simp add: replicate_append_same)
  then have "decimal_value (replicate (Suc k) CHR ''0'')
               = decimal_value (replicate k CHR ''0'') * 10 + decimal_value [CHR ''0'']"
    by (simp only: decimal_value_append) simp
  then show ?case using Suc by (simp add: decimal_value_def digit_val_def)
qed

lemma decimal_value_bounds:
  "list_all is_decimal s \<Longrightarrow> 0 \<le> decimal_value s \<and> decimal_value s < 10 ^ length s"
proof (induction s rule: rev_induct)
  case Nil
  then show ?case by (simp add: decimal_value_def)
next
  case (snoc c s)
  then have "0 \<le> decimal_value s" "decimal_value s < 10 ^ length s"
    "0 \<le> digit_val c" "digit_val c \<le> 9"
    using digit_val_range by auto
  moreover have "decimal_value (s @ [c]) = decimal_value s * 10 + digit_val c"
    by (simp add: decimal_value_append) (simp add: decimal_value_def)
  ultimately show ?case by simp
qed


lemma py_int_decimal:
  "list_all is_decimal t \<Longrightarrow> t \<noteq> [] \<Longrightarrow> py_int t = Inr (decimal_value t)"
  by (simp add: py_int_def)

lemma py_int_range: "py_int t = Inr v \<Longrightarrow> 0 \<le> v \<and> v < 10 ^ length t"
  using decimal_value_bounds [of t] by (auto simp: py_int_def split: if_splits)

lemma padded_slices:
  assumes "length p = 6"
  shows "slice_to_neg p 4 = take 2 p"
    and "slice_neg p 4 2 = take 2 (drop 2 p)"
    and "slice_from_neg p 2 = take 2 (drop 4 p)"
  using assms by (simp_all add: slice_to_neg_def slice_neg_def slice_from_neg_def drop_take)

lemma parse_time_NonDigit: "\<not> isdigit (strip s) \<Longrightarrow> parse_time s = Inl NonDigit"
  by (simp add: parse_time_def)

lemma parse_time_BadLength:
  "isdigit (strip s) \<Longrightarrow> 6 < length (strip s) \<Longrightarrow> parse_time s = Inl BadLength"
  by (simp add: parse_time_def)

lemma parse_time_padded:
  assumes "isdigit (strip s)" and "length (strip s) \<le> 6"
  defines "p \<equiv> replicate (6 - length (strip s)) CHR ''0'' @ strip s"
  shows "parse_time s =
     (case (if length (strip s) > 4 then py_int (take 2 p) else Inr 0) of
        Inl e \<Rightarrow> Inl e
      | Inr hours \<Rightarrow>
          (case (if length (strip s) > 2 then py_int (take 2 (drop 2 p)) else Inr 0) of
             Inl e \<Rightarrow> Inl e
           | Inr minutes \<Rightarrow>
               (case py_int (take 2 (drop 4 p)) of
                  Inl e \<Rightarrow> Inl e
                | Inr seconds \<Rightarrow> Inr (hours * 3600 + minutes * 60 + seconds))))"
proof -
  have ne: "strip s \<noteq> []" using assms(1) by (simp add: isdigit_def)
  have z: "zfill 6 (strip s) = p"
    using assms(1) by (simp add: zfill_isdigit p_def)
  have len: "length p = 6" using assms(2) by (simp add: p_def)
  have "\<not> (length (strip s) > 6 \<or> length (strip s) < 1)"
    using assms(2) ne by (cases "strip s") auto
  then show ?thesis
    using assms(1)
    by (simp add: parse_time_def Let_def z padded_slices [OF len] del: One_nat_def
          cong: sum.case_cong)
qed

lemma padded_take2_zero:
  "n \<le> 4 \<Longrightarrow> length d = n \<Longrightarrow>
     decimal_value (take 2 (replicate (6 - n) CHR ''0'' @ d)) = 0"
proof -
  assume "n \<le> 4" "length d = n"
  then have "take 2 (replicate (6 - n) CHR ''0'' @ d) = replicate 2 CHR ''0''"
    by (simp add: min_def)
  then show ?thesis by (simp only: decimal_value_zeros)
qed

lemma padded_mid2_zero:
  "n \<le> 2 \<Longrightarrow> length d = n \<Longrightarrow>
     decimal_value (take 2 (drop 2 (replicate (6 - n) CHR ''0'' @ d))) = 0"
proof -
  assume "n \<le> 2" "length d = n"
  then have "take 2 (drop 2 (replicate (6 - n) CHR ''0'' @ d)) = replicate 2 CHR ''0''"
    by (simp add: min_def)
  then show ?thesis by (simp only: decimal_value_zeros)
qed

lemma list_all_take_drop:
  "list_all P xs \<Longrightarrow> list_all P (take n xs) \<and> list_all P (drop n xs)"
  by (metis append_take_drop_id list_all_append)

lemma parse_time_digits:
  assumes dec: "list_all is_decimal (strip s)"
    and lo: "1 \<le> length (strip s)" and hi: "length (strip s) \<le> 6"
  shows "parse_time s = Inr (spec_timecode (strip s))"
proof -
  define d where "d = strip s"
  define p where "p = replicate (6 - length d) CHR ''0'' @ d"
  have ne: "d \<noteq> []" using lo by (auto simp: d_def)
  have "list_all isdigit_char d"
    using dec by (auto simp: d_def list_all_iff intro: is_decimal_isdigit_char)
  then have dig: "isdigit (strip s)" using ne by (simp add: isdigit_def d_def)
  have len: "length p = 6" using hi by (simp add: p_def d_def)
  have pdec: "list_all is_decimal p"
    using dec by (auto simp: p_def d_def list_all_iff is_decimal_zero)
  have h: "py_int (take 2 p) = Inr (decimal_value (take 2 p))"
    using len pdec by (intro py_int_decimal) (auto simp: list_all_take_drop)
  have m: "py_int (take 2 (drop 2 p)) = Inr (decimal_value (take 2 (drop 2 p)))"
    using len pdec by (intro py_int_decimal) (auto simp: list_all_take_drop)
  have sec: "py_int (take 2 (drop 4 p)) = Inr (decimal_value (take 2 (drop 4 p)))"
    using len pdec by (intro py_int_decimal) (auto simp: list_all_take_drop)
  have h0: "\<not> 4 < length d \<Longrightarrow> decimal_value (take 2 p) = 0"
    unfolding p_def by (rule padded_take2_zero) simp_all
  have m0: "\<not> 2 < length d \<Longrightarrow> decimal_value (take 2 (drop 2 p)) = 0"
    unfolding p_def by (rule padded_mid2_zero) simp_all
  show ?thesis
    using h0 m0
    by (simp add: parse_time_padded [OF dig hi] spec_timecode_def Let_def h m sec
          flip: d_def p_def)
qed

lemma parse_time_Inr_shape:
  assumes "parse_time s = Inr v"
  shows "isdigit (strip s) \<and> length (strip s) \<le> 6"
  using assms by (auto simp: parse_time_def Let_def split: if_splits)

lemma parse_time_Inr_bounds:
  assumes ok: "parse_time s = Inr v"
  shows "0 \<le> v \<and> v \<le> 362439"
proof -
  define p where "p = replicate (6 - length (strip s)) CHR ''0'' @ strip s"
  define H where "H = (if length (strip s) > 4 then py_int (take 2 p) else Inr 0)"
  define M where "M = (if length (strip s) > 2 then py_int (take 2 (drop 2 p)) else Inr 0)"
  define S where "S = py_int (take 2 (drop 4 p))"
  from ok have dig: "isdigit (strip s)" and hi: "length (strip s) \<le> 6"
    using parse_time_Inr_shape by blast+
  have len: "length p = 6" using hi by (simp add: p_def)
  have two: "py_int t = Inr x \<Longrightarrow> length t = 2 \<Longrightarrow> 0 \<le> x \<and> x \<le> 99" for t x
    using py_int_range [of t x] by simp
  have eq: "parse_time s =
      (case H of Inl e \<Rightarrow> Inl e
       | Inr hours \<Rightarrow>
           (case M of Inl e \<Rightarrow> Inl e
            | Inr minutes \<Rightarrow>
                (case S of Inl e \<Rightarrow> Inl e
                 | Inr seconds \<Rightarrow> Inr (hours * 3600 + minutes * 60 + seconds))))"
    unfolding H_def M_def S_def p_def by (rule parse_time_padded [OF dig hi])
  from ok obtain hours minutes seconds where
    v: "v = hours * 3600 + minutes * 60 + seconds"
    and hh: "H = Inr hours" and mm: "M = Inr minutes" and ss: "S = Inr seconds"
    unfolding eq by (auto split: sum.splits)
  have "0 \<le> hours \<and> hours \<le> 99"
    using hh two [of "take 2 p" hours] len by (auto simp: H_def split: if_splits)
  moreover have "0 \<le> minutes \<and> minutes \<le> 99"
    using mm two [of "take 2 (drop 2 p)" minutes] len by (auto simp: M_def split: if_splits)
  moreover have "0 \<le> seconds \<and> seconds \<le> 99"
    using ss two [of "take 2 (drop 4 p)" seconds] len by (auto simp: S_def)
  ultimately show ?thesis unfolding v by linarith
qed

lemma hms_decode:
  fixes H M S :: int
  assumes "0 \<le> H" "0 \<le> M" "M < 100" "0 \<le> S" "S < 100"
    and n: "n = H * 10000 + M * 100 + S"
  shows "n div 10000 = H \<and> n div 100 mod 100 = M \<and> n mod 100 = S"
proof -
  have 1: "n div 10000 = H"
    using assms by (intro int_div_pos_eq [where r = "M * 100 + S"]) auto
  have 2: "n div 100 = H * 100 + M"
    using assms by (intro int_div_pos_eq [where r = S]) auto
  have 3: "(H * 100 + M) mod 100 = M"
    using assms by (intro int_mod_pos_eq [where q = H]) auto
  have 4: "n mod 100 = S"
    using assms by (intro int_mod_pos_eq [where q = "H * 100 + M"]) auto
  show ?thesis using 1 2 3 4 by simp
qed

lemma six_split:
  assumes "length p = 6"
  shows "drop 4 p = take 2 (drop 4 p)"
    and "drop 2 p = take 2 (drop 2 p) @ take 2 (drop 4 p)"
    and "p = take 2 p @ take 2 (drop 2 p) @ take 2 (drop 4 p)"
proof -
  show a: "drop 4 p = take 2 (drop 4 p)" using assms by simp
  have "take 4 (drop 2 p) = take 2 (drop 2 p) @ take 2 (drop 4 p)"
    using take_add [of 2 2 "drop 2 p"] by simp
  moreover have "take 4 (drop 2 p) = drop 2 p" using assms by simp
  ultimately show b: "drop 2 p = take 2 (drop 2 p) @ take 2 (drop 4 p)" by simp
  have "p = take 2 p @ drop 2 p" by simp
  then show "p = take 2 p @ take 2 (drop 2 p) @ take 2 (drop 4 p)"
    using b by simp
qed

lemma list_all_drop_more:
  assumes "list_all P (drop k p)" and "k \<le> j"
  shows "list_all P (drop j p)"
proof -
  have "drop (j - k) (drop k p) = drop (j - k + k) p" by (rule drop_drop)
  also have "j - k + k = j" using assms(2) by simp
  finally have "drop j p = drop (j - k) (drop k p)" by simp
  then show ?thesis using assms(1) list_all_take_drop [of P "drop k p" "j - k"] by simp
qed

lemma spec_timecode_arith:
  assumes dec: "list_all is_decimal d" and hi: "length d \<le> 6"
  shows "spec_timecode d =
           (decimal_value d div 10000) * 3600
             + (decimal_value d div 100 mod 100) * 60
             + decimal_value d mod 100"
proof -
  define p where "p = replicate (6 - length d) CHR ''0'' @ d"
  define H where "H = decimal_value (take 2 p)"
  define M where "M = decimal_value (take 2 (drop 2 p))"
  define S where "S = decimal_value (take 2 (drop 4 p))"
  have len: "length p = 6" using hi by (simp add: p_def)
  have pdec: "list_all is_decimal p"
    using dec by (auto simp: p_def list_all_iff is_decimal_zero)
  have same: "decimal_value p = decimal_value d"
    by (simp add: p_def decimal_value_append decimal_value_zeros)
  have "decimal_value p
          = decimal_value (take 2 p @ take 2 (drop 2 p) @ take 2 (drop 4 p))"
    by (rule arg_cong [OF six_split(3) [OF len]])
  also have "\<dots> = H * 10000 + M * 100 + S"
    using len by (simp add: decimal_value_append H_def M_def S_def)
  finally have n: "decimal_value d = H * 10000 + M * 100 + S"
    using same by simp
  have "0 \<le> H"
    using len pdec decimal_value_bounds [of "take 2 p"]
    by (simp add: H_def list_all_take_drop)
  moreover have "0 \<le> M \<and> M < 100"
    using len pdec decimal_value_bounds [of "take 2 (drop 2 p)"]
    by (simp add: M_def list_all_take_drop)
  moreover have "0 \<le> S \<and> S < 100"
    using len pdec decimal_value_bounds [of "take 2 (drop 4 p)"]
    by (simp add: S_def list_all_take_drop)
  ultimately have "decimal_value d div 10000 = H \<and> decimal_value d div 100 mod 100 = M
      \<and> decimal_value d mod 100 = S"
    using n by (intro hms_decode) auto
  then show ?thesis
    by (simp add: spec_timecode_def Let_def H_def M_def S_def p_def)
qed

lemma parse_time_Inr_decimal:
  assumes ok: "parse_time s = Inr v"
  shows "list_all is_decimal (strip s)"
proof -
  define n where "n = length (strip s)"
  define p where "p = replicate (6 - n) CHR ''0'' @ strip s"
  define H where "H = (if n > 4 then py_int (take 2 p) else Inr 0)"
  define M where "M = (if n > 2 then py_int (take 2 (drop 2 p)) else Inr 0)"
  define S where "S = py_int (take 2 (drop 4 p))"
  from ok have dig: "isdigit (strip s)" and hi: "length (strip s) \<le> 6"
    using parse_time_Inr_shape by blast+
  have len: "length p = 6" using hi by (simp add: p_def n_def)
  have good: "py_int t = Inr x \<Longrightarrow> list_all is_decimal t" for t x
    by (auto simp: py_int_def split: if_splits)
  have eq: "parse_time s =
      (case H of Inl e \<Rightarrow> Inl e
       | Inr hours \<Rightarrow>
           (case M of Inl e \<Rightarrow> Inl e
            | Inr minutes \<Rightarrow>
                (case S of Inl e \<Rightarrow> Inl e
                 | Inr seconds \<Rightarrow> Inr (hours * 3600 + minutes * 60 + seconds))))"
    unfolding H_def M_def S_def p_def n_def by (rule parse_time_padded [OF dig hi])
  from ok obtain hours minutes seconds where
    hh: "H = Inr hours" and mm: "M = Inr minutes" and ss: "S = Inr seconds"
    unfolding eq by (auto split: sum.splits)
  have s3: "list_all is_decimal (take 2 (drop 4 p))"
    using ss unfolding S_def by (rule good)
  have s2: "list_all is_decimal (take 2 (drop 2 p))" if "2 < n"
  proof -
    from mm that have "py_int (take 2 (drop 2 p)) = Inr minutes"
      unfolding M_def by simp
    then show ?thesis by (rule good)
  qed
  have s1: "list_all is_decimal (take 2 p)" if "4 < n"
  proof -
    from hh that have "py_int (take 2 p) = Inr hours"
      unfolding H_def by simp
    then show ?thesis by (rule good)
  qed
  have clean: "strip s = drop (6 - n) p" by (simp add: p_def n_def)
  have "list_all is_decimal (drop 4 p) = list_all is_decimal (take 2 (drop 4 p))"
    by (rule arg_cong [OF six_split(1) [OF len]])
  then have d4: "list_all is_decimal (drop 4 p)"
    using s3 by (simp only:)
  have "list_all is_decimal (drop 2 p)
          = list_all is_decimal (take 2 (drop 2 p) @ take 2 (drop 4 p))"
    by (rule arg_cong [OF six_split(2) [OF len]])
  then have d2: "list_all is_decimal (drop 2 p)" if "2 < n"
    using s2 [OF that] s3 by (simp only: list_all_append)
  have "list_all is_decimal (drop 0 p)
          = list_all is_decimal (take 2 p @ take 2 (drop 2 p) @ take 2 (drop 4 p))"
    unfolding drop_0 by (rule arg_cong [OF six_split(3) [OF len]])
  then have d0: "list_all is_decimal (drop 0 p)" if "4 < n"
  proof -
    from that have "2 < n" by simp
    from s1 [OF that] s2 [OF this] s3
    have "list_all is_decimal (take 2 p @ take 2 (drop 2 p) @ take 2 (drop 4 p))"
      by (simp only: list_all_append)
    with \<open>list_all is_decimal (drop 0 p)
          = list_all is_decimal (take 2 p @ take 2 (drop 2 p) @ take 2 (drop 4 p))\<close>
    show ?thesis by (rule iffD2)
  qed
  consider "n \<le> 2" | "2 < n" "n \<le> 4" | "4 < n" by linarith
  then have "list_all is_decimal (drop (6 - n) p)"
  proof cases
    case 1
    then have "4 \<le> 6 - n" by simp
    with d4 show ?thesis by (rule list_all_drop_more)
  next
    case 2
    then have "2 \<le> 6 - n" by simp
    with d2 [OF 2(1)] show ?thesis by (rule list_all_drop_more)
  next
    case 3
    have "0 \<le> 6 - n" by simp
    with d0 [OF 3] show ?thesis by (rule list_all_drop_more)
  qed
  then show ?thesis by (simp only: clean)
qed

lemma parse_time_examples:
  "parse_time ''45'' = Inr 45"
  "parse_time ''100'' = Inr 60"
  "parse_time ''013245'' = Inr 5565"
  "parse_time ''0130'' = Inr 90"
  "parse_time ''99'' = Inr 99"
  "parse_time ''0199'' = Inr 159"
  "parse_time ''999999'' = Inr 362439"
  "parse_time ''0132'' = Inr 92"
  "parse_time ''000132'' = Inr 92"
  by code_simp+

section \<open>The claims about the parser\<close>

text \<open>
  C1. For every input string that, after stripping the surrounding whitespace, consists
  of 1 to 6 decimal digits, \<open>parse_time\<close> succeeds and returns
  hours * 3600 + minutes * 60 + seconds, where the hours, the minutes and the seconds
  are the two-digit groups at the positions 0-1, 2-3 and 4-5 of the digit string padded
  with zeros on the left to six characters. That value is also the decoding of the
  number the digits denote, read as 10000 * H + 100 * M + S. In particular "45" gives
  45, "100" gives 60 and "013245" gives 5565.
\<close>

theorem parse_time_decodes:
  "(list_all is_decimal (strip s) \<and> 1 \<le> length (strip s) \<and> length (strip s) \<le> 6 \<longrightarrow>
      parse_time s = Inr (spec_timecode (strip s))
      \<and> spec_timecode (strip s)
          = (decimal_value (strip s) div 10000) * 3600
              + (decimal_value (strip s) div 100 mod 100) * 60
              + decimal_value (strip s) mod 100)
   \<and> parse_time ''45'' = Inr 45
   \<and> parse_time ''100'' = Inr 60
   \<and> parse_time ''013245'' = Inr 5565"
  using parse_time_digits [of s] spec_timecode_arith [of "strip s"]
  by (simp add: parse_time_examples)

theorem parse_time_decodes_witness:
  "list_all is_decimal (strip '' 0132 '') \<and> length (strip '' 0132 '') = 4
     \<and> parse_time '' 0132 '' = Inr (spec_timecode (strip '' 0132 ''))
     \<and> spec_timecode (strip '' 0132 '') = 0 * 3600 + 1 * 60 + 32"
proof -
  have h: "list_all is_decimal (strip '' 0132 '')" by code_simp
  have l: "length (strip '' 0132 '') = 4" by code_simp
  have v: "spec_timecode (strip '' 0132 '') = 0 * 3600 + 1 * 60 + 32" by code_simp
  from parse_time_decodes [of "'' 0132 ''"] h l
  have "parse_time '' 0132 '' = Inr (spec_timecode (strip '' 0132 ''))" by simp
  with h l v show ?thesis by blast
qed

text \<open>
  C10. \<open>parse_time\<close> does not check the range of a component: the minutes and the
  seconds may exceed 59 ("99" is 99 seconds, "0199" is 1 minute and 99 seconds, 159
  seconds), and so every accepted input gives an integer between 0 and
  99 * 3600 + 99 * 60 + 99 = 362439. The witness shows the upper bound reached, at
  "999999".
\<close>

theorem parse_time_range:
  "parse_time ''99'' = Inr 99
   \<and> parse_time ''0199'' = Inr 159
   \<and> (parse_time s = Inr v \<longrightarrow> 0 \<le> v \<and> v \<le> 99 * 3600 + 99 * 60 + 99)"
  using parse_time_Inr_bounds [of s v] by (simp add: parse_time_examples)

theorem parse_time_range_witness:
  "parse_time ''999999'' = Inr 362439 \<and> (0::int) \<le> 362439 \<and> (362439::int) \<le> 99 * 3600 + 99 * 60 + 99"
proof -
  have h: "parse_time ''999999'' = Inr 362439" by (rule parse_time_examples)
  from parse_time_range [of "''999999''" 362439] h
  have "(0::int) \<le> 362439 \<and> (362439::int) \<le> 99 * 3600 + 99 * 60 + 99" by blast
  with h show ?thesis by blast
qed

text \<open>
  C4. The claim reads: after stripping, \<open>parse_time\<close> fails with the error NonDigit
  whenever a character is not a decimal digit and with the error BadLength whenever the
  length is 0 or more than 6; "", "1234567" and "12a45" fail with the documented kind.
  The code tests \<^verbatim>\<open>isdigit()\<close> first, and Python's \<^verbatim>\<open>"".isdigit()\<close> is false:
  the empty input raises the "only digits" error, and the test \<^verbatim>\<open>length < 1\<close> of the
  length check is never reached. \<^verbatim>\<open>isdigit()\<close> also accepts the superscript digits,
  which \<^verbatim>\<open>int()\<close> refuses: such an input fails with the error of \<^verbatim>\<open>int()\<close>, not
  with NonDigit. The theorem evaluates the code at these inputs, and at the two
  examples of the claim that do fail as documented.
\<close>

theorem parse_time_empty_input:
  "parse_time '''' = Inl NonDigit
   \<and> parse_time '''' \<noteq> Inl BadLength
   \<and> parse_time [CHR 0xB2] = Inl (InvalidLiteral [CHR ''0'', CHR 0xB2])
   \<and> parse_time ''1234567'' = Inl BadLength
   \<and> parse_time ''12a45'' = Inl NonDigit"
proof -
  have 1: "parse_time '''' = Inl NonDigit" by code_simp
  have 2: "parse_time [CHR 0xB2] = Inl (InvalidLiteral [CHR ''0'', CHR 0xB2])" by code_simp
  have 3: "parse_time ''1234567'' = Inl BadLength" by code_simp
  have 4: "parse_time ''12a45'' = Inl NonDigit" by code_simp
  show ?thesis unfolding 1 2 3 4 by simp
qed

section \<open>Facts about the formatter\<close>

lemma str_nat_isdigit: "isdigit (str_nat n)"
  using str_nat_digits [of n]
  by (auto simp: isdigit_def list_all_iff intro: is_decimal_isdigit_char)

lemma zfill_str_nat: "zfill k (str_nat n) = replicate (k - length (str_nat n)) CHR ''0'' @ str_nat n"
  by (rule zfill_isdigit [OF str_nat_isdigit])

lemma zfill_str_nat_digits:
  "list_all is_decimal (zfill k (str_nat n))"
  "decimal_value (zfill k (str_nat n)) = int n"
  "length (zfill k (str_nat n)) = max k (length (str_nat n))"
proof -
  show "list_all is_decimal (zfill k (str_nat n))"
    using str_nat_digits [of n] by (auto simp: zfill_str_nat list_all_iff is_decimal_zero)
  show "decimal_value (zfill k (str_nat n)) = int n"
    by (simp add: zfill_str_nat decimal_value_append decimal_value_zeros decimal_value_str_nat)
  show "length (zfill k (str_nat n)) = max k (length (str_nat n))"
    by (simp add: zfill_str_nat)
qed

lemma length_str_nat: "0 < k \<Longrightarrow> n < 10 ^ k \<Longrightarrow> length (str_nat n) \<le> k"
proof (induction n arbitrary: k rule: str_nat.induct)
  case (1 n)
  show ?case
  proof (cases "n < 10")
    case True
    then have "length (str_nat n) = 1" by (subst str_nat.simps) simp
    then show ?thesis using "1.prems" by simp
  next
    case False
    then obtain j where k: "k = Suc j" and j: "0 < j"
      using "1.prems" by (cases k; cases "k - 1") auto
    have "n div 10 < 10 ^ j"
      using "1.prems"(2) k by (simp add: less_mult_imp_div_less mult.commute)
    then have "length (str_nat (n div 10)) \<le> j"
      using "1.IH" [OF False j] by simp
    moreover have "length (str_nat n) = Suc (length (str_nat (n div 10)))"
      using False by (subst str_nat.simps) simp
    ultimately show ?thesis using k by simp
  qed
qed

lemma zfill_str_nat_length: "0 < k \<Longrightarrow> n < 10 ^ k \<Longrightarrow> length (zfill k (str_nat n)) = k"
  using length_str_nat [of k n] by (simp add: zfill_str_nat_digits(3))

lemma fmt_02d_nonneg: "0 \<le> i \<Longrightarrow> fmt_02d i = zfill 2 (str_nat (nat i))"
  by (simp add: fmt_02d_def str_int_def)

lemma pymod_range:
  assumes "0 < m"
  shows "0 \<le> pymod x m \<and> pymod x m < m"
proof -
  have a: "of_int \<lfloor>x / m\<rfloor> * m \<le> x"
    by (rule iffD1 [OF pos_le_divide_eq [OF assms] of_int_floor_le])
  have "x / m < of_int \<lfloor>x / m\<rfloor> + 1"
    using floor_correct [of "x / m"] by simp
  then have b: "x < (of_int \<lfloor>x / m\<rfloor> + 1) * m"
    by (rule iffD1 [OF pos_divide_less_eq [OF assms]])
  show ?thesis using a b by (simp add: pymod_def algebra_simps)
qed

lemma floordiv_range:
  assumes "0 \<le> x" and "x < of_int k * m" and "0 < m"
  shows "0 \<le> floordiv x m \<and> floordiv x m < k"
proof -
  have "0 \<le> x / m" using assms by simp
  then have "0 \<le> \<lfloor>x / m\<rfloor>" by simp
  moreover have "x / m < of_int k" using assms by (simp add: pos_divide_less_eq)
  then have "\<lfloor>x / m\<rfloor> < k" by (simp add: floor_less_iff)
  ultimately show ?thesis by (simp add: floordiv_def)
qed

lemma round_half_even_cases:
  "round_half_even y = \<lfloor>y\<rfloor> \<or> (round_half_even y = \<lfloor>y\<rfloor> + 1 \<and> of_int \<lfloor>y\<rfloor> < y)"
  by (auto simp: round_half_even_def Let_def)

lemma round_half_even_range:
  assumes "of_int a \<le> y" and "y \<le> of_int b"
  shows "a \<le> round_half_even y \<and> round_half_even y \<le> b"
proof -
  have lo: "a \<le> \<lfloor>y\<rfloor>" using assms(1) by (simp add: le_floor_iff)
  have hi: "\<lfloor>y\<rfloor> \<le> b" using assms(2) by (simp add: floor_le_iff)
  have strict: "of_int \<lfloor>y\<rfloor> < y \<Longrightarrow> \<lfloor>y\<rfloor> + 1 \<le> b"
  proof -
    assume "of_int \<lfloor>y\<rfloor> < y"
    with assms(2) have "of_int \<lfloor>y\<rfloor> < (of_int b :: rat)" by simp
    then have "\<lfloor>y\<rfloor> < b" by simp
    then show ?thesis by simp
  qed
  show ?thesis
    using round_half_even_cases [of y] lo hi strict by auto
qed

lemma round_half_even_of_int: "round_half_even (of_int k) = k"
  by (simp add: round_half_even_def)

lemma zfill_no_sign:
  "c \<noteq> CHR ''+'' \<Longrightarrow> c \<noteq> CHR ''-'' \<Longrightarrow>
     zfill k (c # cs) = replicate (k - Suc (length cs)) CHR ''0'' @ c # cs"
  by (simp add: zfill_def)

lemma fmt_06_3f_parts:
  assumes "0 \<le> x" and "x < 60"
  defines "m \<equiv> round_half_even (x * 1000)"
  shows "fmt_06_3f x
           = zfill 2 (str_nat (nat (m div 1000))) @ ''.'' @ zfill 3 (str_nat (nat (m mod 1000)))"
    and "0 \<le> m" and "m \<le> 60000"
proof -
  have "of_int 0 \<le> x * 1000" and "x * 1000 \<le> of_int 60000" using assms by simp_all
  then have "0 \<le> m \<and> m \<le> 60000"
    unfolding m_def by (rule round_half_even_range)
  then show m: "0 \<le> m" "m \<le> 60000" by simp_all
  define A where "A = str_nat (nat (m div 1000))"
  define B where "B = zfill 3 (str_nat (nat (m mod 1000)))"
  obtain c cs where A: "A = c # cs" and c: "is_decimal c"
    using str_nat_digits [of "nat (m div 1000)"] by (cases A) (auto simp: A_def)
  have sign: "c \<noteq> CHR ''+''" "c \<noteq> CHR ''-''"
    using c isdigit_char_not_sign is_decimal_isdigit_char by blast+
  have "nat (m mod 1000) < 10 ^ 3" using m by simp
  then have lenB: "length B = 3"
    unfolding B_def by (intro zfill_str_nat_length) simp_all
  have "nat (m div 1000) < 10 ^ 2" using m by simp
  then have "length A \<le> 2" unfolding A_def by (intro length_str_nat) simp_all
  then have lenA: "length cs \<le> 1" using A by simp
  have "fmt_06_3f x = zfill 6 (A @ ''.'' @ B)"
    using assms(1) by (simp add: fmt_06_3f_def Let_def m_def A_def B_def)
  also have "\<dots> = zfill 6 (c # (cs @ ''.'' @ B))" by (simp add: A)
  also have "\<dots> = replicate (6 - Suc (length (cs @ ''.'' @ B))) CHR ''0'' @ c # (cs @ ''.'' @ B)"
    using sign by (rule zfill_no_sign)
  also have "\<dots> = (replicate (2 - length A) CHR ''0'' @ A) @ ''.'' @ B"
    using lenA lenB by (simp add: A)
  also have "replicate (2 - length A) CHR ''0'' @ A = zfill 2 A"
    unfolding A_def by (rule zfill_str_nat [symmetric])
  finally show "fmt_06_3f x
           = zfill 2 (str_nat (nat (m div 1000))) @ ''.'' @ zfill 3 (str_nat (nat (m mod 1000)))"
    by (simp add: A_def B_def)
qed

lemma floor_divide_int:
  fixes y :: rat
  assumes n: "0 < n"
  shows "\<lfloor>y / of_int n\<rfloor> = \<lfloor>y\<rfloor> div n"
proof (rule floor_unique)
  define a where "a = \<lfloor>y\<rfloor>"
  have pos: "(0::rat) < of_int n" using n by simp
  have lo: "of_int a \<le> y" and up: "y < of_int (a + 1)"
    using floor_correct [of y] by (simp_all add: a_def)
  have "(a div n) * n \<le> a"
    using n by (metis div_mult_mod_eq le_add_same_cancel1 pos_mod_sign)
  then have "(of_int ((a div n) * n) :: rat) \<le> of_int a" by (simp only: of_int_le_iff)
  then have "of_int (a div n) * of_int n \<le> y" using lo by simp
  then show "of_int (\<lfloor>y\<rfloor> div n) \<le> y / of_int n"
    unfolding a_def [symmetric] by (simp add: pos_le_divide_eq [OF pos])
  have "a mod n < n" using n by simp
  then have "a + 1 \<le> (a div n) * n + n"
    using div_mult_mod_eq [of a n] by linarith
  then have "(of_int (a + 1) :: rat) \<le> of_int ((a div n) * n + n)"
    by (simp only: of_int_le_iff)
  then have "y < (of_int (a div n) + 1) * of_int n"
    using up by (simp add: algebra_simps)
  then show "y / of_int n < of_int (\<lfloor>y\<rfloor> div n) + 1"
    unfolding a_def [symmetric] by (simp add: pos_divide_less_eq [OF pos])
qed

lemma minutes_value: "floordiv (pymod q 3600) 60 = \<lfloor>q / 60\<rfloor> mod 60"
proof -
  have "pymod q 3600 / 60 = q / 60 - of_int (\<lfloor>q / 3600\<rfloor> * 60)"
    by (simp add: pymod_def field_simps)
  then have "floordiv (pymod q 3600) 60 = \<lfloor>q / 60\<rfloor> - \<lfloor>q / 3600\<rfloor> * 60"
    unfolding floordiv_def by (simp only: floor_diff_of_int)
  moreover have "\<lfloor>q / 3600\<rfloor> = \<lfloor>q / 60\<rfloor> div 60"
    using floor_divide_int [of 60 "q / 60"] by simp
  ultimately show ?thesis
    by (simp add: minus_div_mult_eq_mod)
qed

lemma millis_value:
  assumes "q * 1000 = of_int k"
  shows "round_half_even (pymod q 60 * 1000) = k mod 60000"
proof -
  have q: "q = of_int k / 1000" using assms by (simp add: field_simps)
  have "\<lfloor>q / 60\<rfloor> = \<lfloor>(of_int k :: rat) / of_int 60000\<rfloor>"
    by (simp add: q)
  also have "\<dots> = k div 60000" by (rule floor_divide_of_int_eq)
  finally have f: "\<lfloor>q / 60\<rfloor> = k div 60000" .
  have "pymod q 60 * 1000 = q * 1000 - of_int (\<lfloor>q / 60\<rfloor> * 60000)"
    by (simp add: pymod_def algebra_simps)
  also have "\<dots> = of_int (k - k div 60000 * 60000)"
    by (simp add: assms f)
  also have "k - k div 60000 * 60000 = k mod 60000"
    by (simp add: minus_div_mult_eq_mod)
  finally show ?thesis by (simp only: round_half_even_of_int)
qed

lemma format_time_parts:
  assumes "0 \<le> q"
  defines "m \<equiv> round_half_even (pymod q 60 * 1000)"
  shows "format_time q =
           zfill 2 (str_nat (nat \<lfloor>q / 3600\<rfloor>)) @ '':''
             @ zfill 2 (str_nat (nat (floordiv (pymod q 3600) 60))) @ '':''
             @ zfill 2 (str_nat (nat (m div 1000))) @ ''.''
             @ zfill 3 (str_nat (nat (m mod 1000)))"
proof -
  have h: "0 \<le> floordiv q 3600"
    using assms(1) by (simp add: floordiv_def)
  have r: "0 \<le> pymod q 3600 \<and> pymod q 3600 < 3600" by (rule pymod_range) simp
  then have mi: "0 \<le> floordiv (pymod q 3600) 60 \<and> floordiv (pymod q 3600) 60 < 60"
    by (intro floordiv_range) simp_all
  have s: "0 \<le> pymod q 60" "pymod q 60 < 60"
    using pymod_range [of 60 q] by simp_all
  show ?thesis
    using h mi
    by (simp add: format_time_def Let_def fmt_02d_nonneg fmt_06_3f_parts(1) [OF s] m_def
          floordiv_def)
qed

lemma format_time_examples:
  "format_time 5565 = ''01:32:45.000''"
  "format_time 360000 = ''100:00:00.000''"
  "format_time (91 / 2) = ''00:00:45.500''"
  "format_time 45 = ''00:00:45.000''"
  "format_time 90 = ''00:01:30.000''"
  by code_simp+

lemma millis_split:
  fixes k :: int
  shows "k mod 60000 div 1000 = k div 1000 mod 60 \<and> k mod 60000 mod 1000 = k mod 1000"
proof -
  have e: "k mod (1000 * 60) = 1000 * (k div 1000 mod 60) + k mod 1000"
    by (rule zmod_zmult2_eq) simp
  have r: "0 \<le> k mod 1000" "k mod 1000 < 1000" by simp_all
  have e': "k mod 60000 = 1000 * (k div 1000 mod 60) + k mod 1000"
    using e by simp
  have "k mod 60000 div 1000 = k div 1000 mod 60"
    using e' r by (rule int_div_pos_eq)
  moreover have "k mod 60000 mod 1000 = k mod 1000"
    using e' r by (rule int_mod_pos_eq)
  ultimately show ?thesis by simp
qed

lemma format_time_fields:
  assumes q: "0 \<le> q"
  defines "m \<equiv> round_half_even (pymod q 60 * 1000)"
  defines "hh \<equiv> zfill 2 (str_nat (nat \<lfloor>q / 3600\<rfloor>))"
  defines "mm \<equiv> zfill 2 (str_nat (nat (floordiv (pymod q 3600) 60)))"
  defines "ss \<equiv> zfill 2 (str_nat (nat (m div 1000)))"
  defines "mmm \<equiv> zfill 3 (str_nat (nat (m mod 1000)))"
  shows "format_time q = hh @ '':'' @ mm @ '':'' @ ss @ ''.'' @ mmm"
    and "list_all is_decimal hh \<and> 2 \<le> length hh \<and> decimal_value hh = \<lfloor>q / 3600\<rfloor>"
    and "list_all is_decimal mm \<and> length mm = 2 \<and> decimal_value mm = \<lfloor>q / 60\<rfloor> mod 60"
    and "list_all is_decimal ss \<and> length ss = 2 \<and> decimal_value ss = m div 1000"
    and "list_all is_decimal mmm \<and> length mmm = 3 \<and> decimal_value mmm = m mod 1000"
proof -
  show "format_time q = hh @ '':'' @ mm @ '':'' @ ss @ ''.'' @ mmm"
    unfolding hh_def mm_def ss_def mmm_def m_def by (rule format_time_parts [OF q])
  have h: "0 \<le> \<lfloor>q / 3600\<rfloor>" using q by simp
  show "list_all is_decimal hh \<and> 2 \<le> length hh \<and> decimal_value hh = \<lfloor>q / 3600\<rfloor>"
    using h by (simp add: hh_def zfill_str_nat_digits)
  have "0 \<le> \<lfloor>q / 60\<rfloor> mod 60" "\<lfloor>q / 60\<rfloor> mod 60 < 60" by simp_all
  then have mi: "0 \<le> floordiv (pymod q 3600) 60" "floordiv (pymod q 3600) 60 < 60"
    by (simp_all only: minutes_value)
  then have "nat (floordiv (pymod q 3600) 60) < 10 ^ 2" by simp
  then have "length mm = 2"
    unfolding mm_def by (intro zfill_str_nat_length) simp_all
  then show "list_all is_decimal mm \<and> length mm = 2 \<and> decimal_value mm = \<lfloor>q / 60\<rfloor> mod 60"
    using mi(1) by (simp add: mm_def zfill_str_nat_digits minutes_value)
  have s: "0 \<le> pymod q 60" "pymod q 60 < 60"
    using pymod_range [of 60 q] by simp_all
  have m: "0 \<le> m" "m \<le> 60000"
    unfolding m_def by (rule fmt_06_3f_parts(2,3) [OF s])+
  then have "nat (m div 1000) < 10 ^ 2" by simp
  then have "length ss = 2"
    unfolding ss_def by (intro zfill_str_nat_length) simp_all
  then show "list_all is_decimal ss \<and> length ss = 2 \<and> decimal_value ss = m div 1000"
    using m(1) by (simp add: ss_def zfill_str_nat_digits pos_imp_zdiv_nonneg_iff)
  have "nat (m mod 1000) < 10 ^ 3" by simp
  then have "length mmm = 3"
    unfolding mmm_def by (intro zfill_str_nat_length) simp_all
  then show "list_all is_decimal mmm \<and> length mmm = 3 \<and> decimal_value mmm = m mod 1000"
    by (simp add: mmm_def zfill_str_nat_digits)
qed

section \<open>The claim about the formatter\<close>

text \<open>
  C8. \<open>format_time\<close> produces a string of the shape HH:MM:SS.mmm: the hours have at
  least two digits and no upper bound (360000 seconds give "100:00:00.000"), the
  minutes have exactly two digits, and the seconds field has six characters, two digits,
  the point and three decimals. \<open>format_time 5565\<close> is "01:32:45.000". The fields are
  the hours, the minutes of the hour, and the seconds of the minute rounded to the
  millisecond; an input that is a whole number of milliseconds shows them exactly, so a
  fractional input appears in the millisecond digits (45.5 gives "00:00:45.500").

  The statement is for a number of seconds that is not negative, as a time code and a
  duration of the program are, and for exact numbers (see \<open>format_time\<close>).
\<close>

theorem format_time_shape:
  "(0 \<le> seconds \<longrightarrow>
      (\<exists>hh mm ss mmm.
          format_time seconds = hh @ '':'' @ mm @ '':'' @ ss @ ''.'' @ mmm
        \<and> list_all is_decimal hh \<and> 2 \<le> length hh \<and> decimal_value hh = \<lfloor>seconds / 3600\<rfloor>
        \<and> list_all is_decimal mm \<and> length mm = 2
        \<and> decimal_value mm = \<lfloor>seconds / 60\<rfloor> mod 60
        \<and> list_all is_decimal ss \<and> length ss = 2
        \<and> list_all is_decimal mmm \<and> length mmm = 3
        \<and> decimal_value ss * 1000 + decimal_value mmm
            = round_half_even (pymod seconds 60 * 1000)
        \<and> (\<forall>k. seconds * 1000 = of_int k \<longrightarrow>
              decimal_value ss = k div 1000 mod 60 \<and> decimal_value mmm = k mod 1000)))
   \<and> format_time 5565 = ''01:32:45.000''
   \<and> format_time 360000 = ''100:00:00.000''
   \<and> format_time (91 / 2) = ''00:00:45.500''"
proof (intro conjI impI)
  assume q: "0 \<le> seconds"
  define m where "m = round_half_even (pymod seconds 60 * 1000)"
  note f = format_time_fields [OF q, folded m_def]
  have ms: "decimal_value (zfill 2 (str_nat (nat (m div 1000)))) = k div 1000 mod 60
      \<and> decimal_value (zfill 3 (str_nat (nat (m mod 1000)))) = k mod 1000"
    if "seconds * 1000 = of_int k" for k
  proof -
    have "m = k mod 60000" unfolding m_def using that by (rule millis_value)
    then show ?thesis using f(4,5) millis_split [of k] by simp
  qed
  have sum: "decimal_value (zfill 2 (str_nat (nat (m div 1000)))) * 1000
      + decimal_value (zfill 3 (str_nat (nat (m mod 1000)))) = m"
    using f(4,5) by simp
  show "\<exists>hh mm ss mmm.
          format_time seconds = hh @ '':'' @ mm @ '':'' @ ss @ ''.'' @ mmm
        \<and> list_all is_decimal hh \<and> 2 \<le> length hh \<and> decimal_value hh = \<lfloor>seconds / 3600\<rfloor>
        \<and> list_all is_decimal mm \<and> length mm = 2
        \<and> decimal_value mm = \<lfloor>seconds / 60\<rfloor> mod 60
        \<and> list_all is_decimal ss \<and> length ss = 2
        \<and> list_all is_decimal mmm \<and> length mmm = 3
        \<and> decimal_value ss * 1000 + decimal_value mmm
            = round_half_even (pymod seconds 60 * 1000)
        \<and> (\<forall>k. seconds * 1000 = of_int k \<longrightarrow>
              decimal_value ss = k div 1000 mod 60 \<and> decimal_value mmm = k mod 1000)"
    apply (rule exI [of _ "zfill 2 (str_nat (nat \<lfloor>seconds / 3600\<rfloor>))"])
    apply (rule exI [of _ "zfill 2 (str_nat (nat (floordiv (pymod seconds 3600) 60)))"])
    apply (rule exI [of _ "zfill 2 (str_nat (nat (m div 1000)))"])
    apply (rule exI [of _ "zfill 3 (str_nat (nat (m mod 1000)))"])
    using f ms sum unfolding m_def [symmetric] by blast
qed (rule format_time_examples)+

theorem format_time_shape_witness:
  "\<exists>hh mm ss mmm.
      format_time (91 / 2) = hh @ '':'' @ mm @ '':'' @ ss @ ''.'' @ mmm
    \<and> 2 \<le> length hh \<and> length mm = 2 \<and> length ss = 2 \<and> length mmm = 3
    \<and> decimal_value hh = 0 \<and> decimal_value mm = 0
    \<and> decimal_value ss = 45 \<and> decimal_value mmm = 500"
proof -
  have q: "(0::rat) \<le> 91 / 2" by simp
  have k: "(91 / 2 :: rat) * 1000 = of_int 45500" by simp
  have v: "\<lfloor>(91 / 2 :: rat) / 3600\<rfloor> = 0" "\<lfloor>(91 / 2 :: rat) / 60\<rfloor> mod 60 = 0"
    "(45500::int) div 1000 mod 60 = 45" "(45500::int) mod 1000 = 500"
    by (simp_all add: floor_eq_iff)
  from format_time_shape [of "91 / 2"] q obtain hh mm ss mmm where
    "format_time (91 / 2) = hh @ '':'' @ mm @ '':'' @ ss @ ''.'' @ mmm"
    "2 \<le> length hh" "decimal_value hh = \<lfloor>(91 / 2 :: rat) / 3600\<rfloor>"
    "length mm = 2" "decimal_value mm = \<lfloor>(91 / 2 :: rat) / 60\<rfloor> mod 60"
    "length ss = 2" "length mmm = 3"
    "\<forall>k. (91 / 2 :: rat) * 1000 = of_int k \<longrightarrow>
        decimal_value ss = k div 1000 mod 60 \<and> decimal_value mmm = k mod 1000"
    by blast
  moreover from this(8) k have "decimal_value ss = 45500 div 1000 mod 60"
    "decimal_value mmm = 45500 mod 1000" by blast+
  ultimately show ?thesis unfolding v by blast
qed

section \<open>Facts about the session\<close>

text \<open>
  An event is \<open>preliminary\<close> when it can occur before the Confirm step: it is not a
  run of the tool, not the confirmation or the final prompt, and not the message about
  a negative start time.
\<close>

definition preliminary :: "event \<Rightarrow> bool" where
  "preliminary e =
     (case e of
        Run cmd \<Rightarrow> False
      | Input p a \<Rightarrow> p = start_prompt \<or> p = end_prompt
      | Print t \<Rightarrow> t \<noteq> negative_start)"

lemmas message_defs =
  negative_start_def start_prompt_def end_prompt_def confirm_prompt_def exit_prompt_def nl_def

lemma not_preliminary:
  "\<not> preliminary (Run cmd)"
  "\<not> preliminary (Input confirm_prompt a)"
  "\<not> preliminary (Input exit_prompt a)"
  "\<not> preliminary (Print negative_start)"
  by (simp_all add: preliminary_def message_defs)

lemma start_loop_facts:
  "list_all preliminary (fst (start_loop ls))
   \<and> (\<forall>start_input start_time rest.
         snd (start_loop ls) = Some (start_input, start_time, rest) \<longrightarrow>
           parse_time start_input = Inr start_time \<and> 0 \<le> start_time
           \<and> (\<exists>l\<in>set ls. start_input = strip l))"
proof (induction ls)
  case Nil
  show ?case by (simp add: preliminary_def message_defs)
next
  case (Cons l ls)
  show ?case
  proof (cases "parse_time (strip l)")
    case (Inl e)
    with Cons show ?thesis
      by (simp add: preliminary_def message_defs split_beta)
  next
    case (Inr v)
    then have "0 \<le> v" using parse_time_Inr_bounds by blast
    with Inr show ?thesis by (simp add: preliminary_def message_defs)
  qed
qed

lemma end_loop_facts:
  "list_all preliminary (fst (end_loop start_time ls))
   \<and> (\<forall>end_input end_time rest.
         snd (end_loop start_time ls) = Some (end_input, end_time, rest) \<longrightarrow>
           parse_time end_input = Inr end_time \<and> start_time < end_time
           \<and> (\<exists>l\<in>set ls. end_input = strip l))"
proof (induction ls)
  case Nil
  show ?case by (simp add: preliminary_def message_defs)
next
  case (Cons l ls)
  show ?case
  proof (cases "parse_time (strip l)")
    case (Inl e)
    with Cons show ?thesis
      by (simp add: preliminary_def message_defs split_beta)
  next
    case (Inr v)
    with Cons show ?thesis
      by (simp add: preliminary_def message_defs split_beta)
  qed
qed

lemmas tail_defs =
  confirm_and_cut_def cut_video_def after_def pause_then_def Let_def

lemmas tail_splits =
  list.splits proc.splits option.splits if_splits

lemma confirm_and_cut_no_negative:
  "Print negative_start \<notin> set (fst (confirm_and_cut w input_path start_time end_time output_path ls))"
  by (auto simp: tail_defs message_defs split: tail_splits)

lemma confirm_and_cut_asked:
  assumes "Input confirm_prompt (Some c)
             \<in> set (fst (confirm_and_cut w input_path start_time end_time output_path ls))"
  shows "\<exists>ls'. ls = c # ls'"
  using assms by (auto simp: tail_defs message_defs split: tail_splits)

lemma confirm_and_cut_cancel:
  assumes "lower (strip c) \<notin> {[], ''y''}"
  shows "confirm_and_cut w input_path start_time end_time output_path (c # ls')
           = ([Input confirm_prompt (Some c), Print ''Operation cancelled.''], SysExit 0)"
  using assms by (simp add: confirm_and_cut_def after_def)

lemma confirm_and_cut_proceed:
  assumes "lower (strip c) \<in> {[], ''y''}"
  shows "Run (ffmpeg_cmd w input_path start_time end_time output_path)
           \<in> set (fst (confirm_and_cut w input_path start_time end_time output_path (c # ls')))"
  using assms by (auto simp: tail_defs split: tail_splits)

lemma confirm_and_cut_run:
  assumes "Run cmd
             \<in> set (fst (confirm_and_cut w input_path start_time end_time output_path ls))"
  shows "cmd = ffmpeg_cmd w input_path start_time end_time output_path
           \<and> (\<exists>c ls'. ls = c # ls' \<and> lower (strip c) \<in> {[], ''y''})"
  using assms by (auto simp: tail_defs split: tail_splits)

lemma confirm_and_cut_failed:
  assumes "Run cmd
             \<in> set (fst (confirm_and_cut w input_path start_time end_time output_path ls))"
    and "run w cmd = NotFound \<or> (\<exists>rc err. run w cmd = Exited rc err \<and> rc \<noteq> 0)"
  defines "r \<equiv> confirm_and_cut w input_path start_time end_time output_path ls"
  shows "(case run w cmd of
            NotFound \<Rightarrow>
              Print ''Error: ffmpeg not found. Please ensure ffmpeg is installed and added to system PATH.''
                \<in> set (fst r)
          | Exited rc err \<Rightarrow>
              Print ''Error: ffmpeg execution failed'' \<in> set (fst r)
              \<and> Print (''Error message: '' @ err) \<in> set (fst r)
          | Raised e \<Rightarrow> False)
         \<and> (\<exists>a. last (fst r) = Input exit_prompt a
                \<and> snd r = (case a of None \<Rightarrow> Uncaught EOFError | Some l \<Rightarrow> Returned))"
proof -
  from assms(1) have cmd: "cmd = ffmpeg_cmd w input_path start_time end_time output_path"
    and "\<exists>c ls'. ls = c # ls' \<and> lower (strip c) \<in> {[], ''y''}"
    using confirm_and_cut_run by blast+
  then obtain c ls' where ls: "ls = c # ls'" and yes: "lower (strip c) \<in> {[], ''y''}"
    by blast
  show ?thesis
    using assms(2) yes unfolding r_def ls cmd
    by (auto simp: tail_defs split: tail_splits)
qed

lemma list_all_preliminary_append:
  "list_all preliminary (xs @ ys) = (list_all preliminary xs \<and> list_all preliminary ys)"
  by simp

lemma main_shape:
  "(list_all preliminary (fst (main w)) \<and> snd (main w) = Uncaught EOFError)
   \<or> (\<exists>pre a. fst (main w) = pre @ [Input exit_prompt a] \<and> list_all preliminary pre
         \<and> snd (main w) = (case a of None \<Rightarrow> Uncaught EOFError | Some l \<Rightarrow> SysExit 1))
   \<or> (\<exists>pre start_input start_time end_input end_time ls.
         main w = after pre
           (confirm_and_cut w (path_text w (argv w ! 1)) start_time end_time
              (resolve_output_path w (path_text w (argv w ! 1)) start_input end_input) ls)
         \<and> list_all preliminary pre
         \<and> parse_time start_input = Inr start_time
         \<and> parse_time end_input = Inr end_time
         \<and> 0 \<le> start_time \<and> start_time < end_time)"
proof -
  consider (args) "length (argv w) < 2"
    | (missing) "\<not> length (argv w) < 2" "\<not> path_exists w (path_text w (argv w ! 1))"
    | (nofile) "\<not> length (argv w) < 2" "path_exists w (path_text w (argv w ! 1))" "\<not> is_file w (path_text w (argv w ! 1))"
    | (ok) "\<not> length (argv w) < 2" "path_exists w (path_text w (argv w ! 1))" "is_file w (path_text w (argv w ! 1))"
    by blast
  then show ?thesis
  proof cases
    case args
    then have "\<exists>pre a. fst (main w) = pre @ [Input exit_prompt a] \<and> list_all preliminary pre
         \<and> snd (main w) = (case a of None \<Rightarrow> Uncaught EOFError | Some l \<Rightarrow> SysExit 1)"
      by (cases "stdin w") (simp_all add: main_def after_def pause_then_def preliminary_def message_defs)
    then show ?thesis by blast
  next
    case missing
    then have "\<exists>pre a. fst (main w) = pre @ [Input exit_prompt a] \<and> list_all preliminary pre
         \<and> snd (main w) = (case a of None \<Rightarrow> Uncaught EOFError | Some l \<Rightarrow> SysExit 1)"
      by (cases "stdin w") (simp_all add: main_def after_def pause_then_def preliminary_def message_defs)
    then show ?thesis by blast
  next
    case nofile
    then have "\<exists>pre a. fst (main w) = pre @ [Input exit_prompt a] \<and> list_all preliminary pre
         \<and> snd (main w) = (case a of None \<Rightarrow> Uncaught EOFError | Some l \<Rightarrow> SysExit 1)"
      by (cases "stdin w") (simp_all add: main_def after_def pause_then_def preliminary_def message_defs)
    then show ?thesis by blast
  next
    case ok
    define head where "head =
      [Print (''Input file: '' @ path_text w (argv w ! 1)),
       Print (''File size: '' @ megabytes w (st_size w (path_text w (argv w ! 1))) @ '' MB'')]"
    have head: "list_all preliminary head"
      by (simp add: head_def preliminary_def message_defs)
    obtain evs1 r1 where s1: "start_loop (stdin w) = (evs1, r1)" by (cases "start_loop (stdin w)")
    have p1: "list_all preliminary evs1" using start_loop_facts [of "stdin w"] s1 by simp
    show ?thesis
    proof (cases r1)
      case None
      then have "main w = (head @ evs1, Uncaught EOFError)"
        using ok s1 by (simp add: main_def after_def head_def Let_def)
      then show ?thesis using head p1 by simp
    next
      case (Some x)
      then obtain start_input start_time ls1 where r1: "r1 = Some (start_input, start_time, ls1)"
        by (cases x) auto
      then have st: "parse_time start_input = Inr start_time" "0 \<le> start_time"
        using start_loop_facts [of "stdin w"] s1 by simp_all
      obtain evs2 r2 where s2: "end_loop start_time ls1 = (evs2, r2)"
        by (cases "end_loop start_time ls1")
      have p2: "list_all preliminary evs2" using end_loop_facts [of start_time ls1] s2 by simp
      show ?thesis
      proof (cases r2)
        case None
        then have "main w = (head @ evs1 @ evs2, Uncaught EOFError)"
          using ok s1 r1 s2 by (simp add: main_def after_def head_def Let_def)
        then show ?thesis using head p1 p2 by simp
      next
        case (Some y)
        then obtain end_input end_time ls2 where r2: "r2 = Some (end_input, end_time, ls2)"
          by (cases y) auto
        then have et: "parse_time end_input = Inr end_time" "start_time < end_time"
          using end_loop_facts [of start_time ls1] s2 by simp_all
        define out where "out = resolve_output_path w (path_text w (argv w ! 1)) start_input end_input"
        define pre where "pre = head @ evs1 @ evs2 @
          [Print (nl @ ''Start time: '' @ format_time (of_int start_time)),
           Print (''End time: '' @ format_time (of_int end_time)),
           Print (''Duration: '' @ format_time (of_int (end_time - start_time))),
           Print (''Output file: '' @ out @ nl)]"
        have "main w = after pre
            (confirm_and_cut w (path_text w (argv w ! 1)) start_time end_time out ls2)"
          using ok s1 r1 s2 r2
          by (simp add: main_def after_def head_def pre_def out_def Let_def)
        moreover have "list_all preliminary pre"
          using head p1 p2 by (simp add: pre_def preliminary_def message_defs)
        ultimately show ?thesis using st et unfolding out_def by blast
      qed
    qed
  qed
qed

lemma after_simps: "fst (after pre r) = pre @ fst r" "snd (after pre r) = snd r"
  by (simp_all add: after_def)

lemma preliminary_member: "list_all preliminary pre \<Longrightarrow> e \<in> set pre \<Longrightarrow> preliminary e"
  by (simp add: list_all_iff)

definition example_world :: world where
  "example_world =
     \<lparr>argv = [''mkvCut.py'', ''clip.mp4''],
      stdin = [''45'', ''0130'', '''', ''''],
      frozen = False, executable_parent = ''/usr/bin'', file_parent = ''/opt/mkvcut'',
      os_sep = CHR ''/'', path_text = (\<lambda>s. s),
      files = [''clip.mp4'', ''/opt/mkvcut/clip_45_0130.mp4''],
      is_file = (\<lambda>p. True), st_size = (\<lambda>p. 1048576),
      path_stem = (\<lambda>p. ''clip''), path_suffix = (\<lambda>p. ''.mp4''),
      run = (\<lambda>cmd. NotFound), stat_after = (\<lambda>p. None),
      megabytes = (\<lambda>n. ''1.00'')\<rparr>"

lemma strip_examples:
  "strip ''45'' = ''45''" "strip ''0130'' = ''0130''" "strip '''' = ''''"
  "strip ''n'' = ''n''" "lower ''n'' = ''n''" "lower [] = []"
  "strip ''0132'' = ''0132''" "strip ''000132'' = ''000132''" "strip ''0200'' = ''0200''"
  by code_simp+

lemma str_nat_examples: "str_nat 1 = ''1''" "str_nat (Suc 0) = ''1''" "str_nat 2 = ''2''"
  by code_simp+

lemmas run_defs =
  main_def after_def pause_then_def confirm_and_cut_def cut_video_def ffmpeg_cmd_def
  resolve_output_path_def get_base_path_def path_exists_def joinpath_def Let_def
  strip_examples parse_time_examples format_time_examples counter_loop.simps
  str_nat_examples

lemma example_world_run:
  "main example_world =
     ([Print ''Input file: clip.mp4'',
       Print ''File size: 1.00 MB'',
       Input start_prompt (Some ''45''),
       Input end_prompt (Some ''0130''),
       Print (nl @ ''Start time: 00:00:45.000''),
       Print ''End time: 00:01:30.000'',
       Print ''Duration: 00:00:45.000'',
       Print (''Output file: /opt/mkvcut/clip_45_0130_1.mp4'' @ nl),
       Input confirm_prompt (Some []),
       Print (nl @ ''Executing ffmpeg command (fast copy mode, no re-encoding)...''),
       Print (''Command: ffmpeg -ss 00:00:45.000 -i clip.mp4 -t 00:00:45.000 -c copy -map 0 -avoid_negative_ts make_zero /opt/mkvcut/clip_45_0130_1.mp4 -y'' @ nl),
       Run [''ffmpeg'', ''-ss'', ''00:00:45.000'', ''-i'', ''clip.mp4'', ''-t'',
            ''00:00:45.000'', ''-c'', ''copy'', ''-map'', ''0'', ''-avoid_negative_ts'',
            ''make_zero'', ''/opt/mkvcut/clip_45_0130_1.mp4'', ''-y''],
       Print ''Error: ffmpeg not found. Please ensure ffmpeg is installed and added to system PATH.'',
       Input exit_prompt (Some [])],
      Returned)"
  by (simp add: run_defs example_world_def)

lemma example_world_cancelled:
  "main (example_world\<lparr>stdin := [''45'', ''0130'', ''n'']\<rparr>) =
     ([Print ''Input file: clip.mp4'',
       Print ''File size: 1.00 MB'',
       Input start_prompt (Some ''45''),
       Input end_prompt (Some ''0130''),
       Print (nl @ ''Start time: 00:00:45.000''),
       Print ''End time: 00:01:30.000'',
       Print ''Duration: 00:00:45.000'',
       Print (''Output file: /opt/mkvcut/clip_45_0130_1.mp4'' @ nl),
       Input confirm_prompt (Some ''n''),
       Print ''Operation cancelled.''],
      SysExit 0)"
  by (simp add: run_defs example_world_def)

section \<open>The claims about the session\<close>

text \<open>
  C9. For every input that \<open>parse_time\<close> accepts the value is not negative, so the
  branch of the start-time loop that rejects a negative start time is never taken: its
  message "Error: Start time cannot be negative" is printed by no run of the loop and
  by no run of \<open>main\<close>.
\<close>

theorem negative_start_unreachable:
  "(parse_time s = Inr v \<longrightarrow> 0 \<le> v)
   \<and> Print negative_start \<notin> set (fst (start_loop ls))
   \<and> Print negative_start \<notin> set (fst (main w))"
proof (intro conjI impI)
  assume "parse_time s = Inr v"
  then show "0 \<le> v" using parse_time_Inr_bounds by blast
next
  show "Print negative_start \<notin> set (fst (start_loop ls))"
    using start_loop_facts [of ls] preliminary_member not_preliminary(4) by blast
next
  from main_shape [of w] show "Print negative_start \<notin> set (fst (main w))"
  proof (elim disjE exE conjE)
    assume "list_all preliminary (fst (main w))"
    then show ?thesis using preliminary_member not_preliminary(4) by blast
  next
    fix pre a
    assume "fst (main w) = pre @ [Input exit_prompt a]" "list_all preliminary pre"
    then show ?thesis using preliminary_member not_preliminary(4) by auto
  next
    fix pre start_input start_time end_input end_time ls
    assume "main w = after pre
           (confirm_and_cut w (path_text w (argv w ! 1)) start_time end_time
              (resolve_output_path w (path_text w (argv w ! 1)) start_input end_input) ls)"
      "list_all preliminary pre"
    then show ?thesis
      using preliminary_member not_preliminary(4) confirm_and_cut_no_negative
      by (auto simp: after_simps)
  qed
qed

theorem negative_start_unreachable_witness:
  "parse_time ''45'' = Inr 45 \<and> (0::int) \<le> 45
   \<and> Print negative_start \<notin> set (fst (main example_world))"
proof -
  have h: "parse_time ''45'' = Inr 45" by (rule parse_time_examples)
  from negative_start_unreachable [of "''45''" 45 "[]" example_world] h
  show ?thesis by blast
qed

lemma confirm_words:
  "lower (strip []) \<in> {[], ''y''}"
  "lower (strip ''y'') \<in> {[], ''y''}"
  "lower (strip ''Y'') \<in> {[], ''y''}"
  "lower (strip ''n'') \<notin> {[], ''y''}"
  "lower (strip ''yes'') \<notin> {[], ''y''}"
  by code_simp+

text \<open>
  C7. At the Confirm step the default is yes: the empty input is accepted as yes, as
  are "y" and "Y" (the answer is stripped and put in lower case), and any other answer
  cancels with exit code 0. In a run that asks for the confirmation and reads the
  answer \<open>c\<close>: when \<open>c\<close> is a yes the external tool is invoked; otherwise the run
  ends with \<^verbatim>\<open>sys.exit(0)\<close> after "Operation cancelled." and the tool is not
  invoked at all. "n" is such an answer.
\<close>

theorem confirm_gate:
  "(Input confirm_prompt (Some c) \<in> set (fst (main w)) \<longrightarrow>
      (if lower (strip c) \<in> {[], ''y''}
       then (\<exists>cmd. Run cmd \<in> set (fst (main w)))
       else snd (main w) = SysExit 0 \<and> exit_code (snd (main w)) = 0
            \<and> (\<forall>cmd. Run cmd \<notin> set (fst (main w)))
            \<and> last (fst (main w)) = Print ''Operation cancelled.''))
   \<and> lower (strip []) \<in> {[], ''y''}
   \<and> lower (strip ''y'') \<in> {[], ''y''}
   \<and> lower (strip ''Y'') \<in> {[], ''y''}
   \<and> lower (strip ''n'') \<notin> {[], ''y''}"
proof (intro conjI impI)
  assume asked: "Input confirm_prompt (Some c) \<in> set (fst (main w))"
  from main_shape [of w]
  show "if lower (strip c) \<in> {[], ''y''}
       then (\<exists>cmd. Run cmd \<in> set (fst (main w)))
       else snd (main w) = SysExit 0 \<and> exit_code (snd (main w)) = 0
            \<and> (\<forall>cmd. Run cmd \<notin> set (fst (main w)))
            \<and> last (fst (main w)) = Print ''Operation cancelled.''"
  proof (elim disjE exE conjE)
    assume "list_all preliminary (fst (main w))"
    then show ?thesis using asked preliminary_member not_preliminary(2) by blast
  next
    fix pre a
    assume "fst (main w) = pre @ [Input exit_prompt a]" "list_all preliminary pre"
    then show ?thesis
      using asked preliminary_member not_preliminary(2)
      by (auto simp: message_defs)
  next
    fix pre start_input start_time end_input end_time ls
    assume m: "main w = after pre
           (confirm_and_cut w (path_text w (argv w ! 1)) start_time end_time
              (resolve_output_path w (path_text w (argv w ! 1)) start_input end_input) ls)"
      and pre: "list_all preliminary pre"
    have quiet: "Run cmd \<notin> set pre" for cmd
      using pre preliminary_member not_preliminary(1) by blast
    from asked m pre have "Input confirm_prompt (Some c)
        \<in> set (fst (confirm_and_cut w (path_text w (argv w ! 1)) start_time end_time
              (resolve_output_path w (path_text w (argv w ! 1)) start_input end_input) ls))"
      using preliminary_member not_preliminary(2) by (auto simp: after_simps)
    then obtain ls' where ls: "ls = c # ls'"
      using confirm_and_cut_asked by blast
    show ?thesis
    proof (cases "lower (strip c) \<in> {[], ''y''}")
      case True
      then have "Run (ffmpeg_cmd w (path_text w (argv w ! 1)) start_time end_time
            (resolve_output_path w (path_text w (argv w ! 1)) start_input end_input)) \<in> set (fst (main w))"
        unfolding m ls after_simps using confirm_and_cut_proceed by simp
      with True show ?thesis by auto
    next
      case False
      then have "main w = after pre
          ([Input confirm_prompt (Some c), Print ''Operation cancelled.''], SysExit 0)"
        unfolding m ls by (simp only: confirm_and_cut_cancel [OF False])
      with False show ?thesis using quiet by (simp add: after_simps)
    qed
  qed
qed (rule confirm_words)+

theorem confirm_gate_witness:
  "Input confirm_prompt (Some ''n'')
      \<in> set (fst (main (example_world\<lparr>stdin := [''45'', ''0130'', ''n'']\<rparr>)))
   \<and> snd (main (example_world\<lparr>stdin := [''45'', ''0130'', ''n'']\<rparr>)) = SysExit 0
   \<and> (\<forall>cmd. Run cmd \<notin> set (fst (main (example_world\<lparr>stdin := [''45'', ''0130'', ''n'']\<rparr>))))"
proof -
  have h: "Input confirm_prompt (Some ''n'')
      \<in> set (fst (main (example_world\<lparr>stdin := [''45'', ''0130'', ''n'']\<rparr>)))"
    by (simp add: example_world_cancelled)
  have no: "lower (strip ''n'') \<notin> {[], ''y''}" by (rule confirm_words)
  from confirm_gate [of "''n''" "example_world\<lparr>stdin := [''45'', ''0130'', ''n'']\<rparr>"] h no
  show ?thesis by simp
qed

text \<open>
  C5. The claim reads: whenever the invocation of the external tool fails, the failure
  is reported without an unhandled fault and the program still terminates with exit
  code 0 after the final pause. The final pause is a call of \<^verbatim>\<open>input\<close> outside any
  \<^verbatim>\<open>try\<close>: when the input has ended there it raises EOFError, which nobody catches,
  and the exit code is 1 (the counterexample follows the witness). What holds is
  this. Whenever the invocation fails, because the process exits with a code that
  is not zero (its stderr captured as text) or because no executable is found, the
  failure is reported (the two lines with the captured stderr text, or the line saying
  that ffmpeg is not installed), no exception escapes \<^verbatim>\<open>cut_video\<close>, and the run
  goes on to the final pause, which is its last event; when that pause reads a line,
  \<^verbatim>\<open>main\<close> returns and the exit code is 0; when the input has ended there, the run
  ends with the uncaught EOFError.
\<close>

theorem tool_failure_reported:
  "Run cmd \<in> set (fst (main w))
     \<and> (run w cmd = NotFound \<or> (\<exists>rc err. run w cmd = Exited rc err \<and> rc \<noteq> 0)) \<longrightarrow>
   (case run w cmd of
      NotFound \<Rightarrow>
        Print ''Error: ffmpeg not found. Please ensure ffmpeg is installed and added to system PATH.''
          \<in> set (fst (main w))
    | Exited rc err \<Rightarrow>
        Print ''Error: ffmpeg execution failed'' \<in> set (fst (main w))
        \<and> Print (''Error message: '' @ err) \<in> set (fst (main w))
    | Raised e \<Rightarrow> False)
   \<and> (\<exists>a. last (fst (main w)) = Input exit_prompt a
          \<and> (case a of
                Some l \<Rightarrow> snd (main w) = Returned \<and> exit_code (snd (main w)) = 0
              | None \<Rightarrow> snd (main w) = Uncaught EOFError))"
proof (intro impI, elim conjE)
  assume ran: "Run cmd \<in> set (fst (main w))"
    and failed: "run w cmd = NotFound \<or> (\<exists>rc err. run w cmd = Exited rc err \<and> rc \<noteq> 0)"
  let ?goal = "(case run w cmd of
      NotFound \<Rightarrow>
        Print ''Error: ffmpeg not found. Please ensure ffmpeg is installed and added to system PATH.''
          \<in> set (fst (main w))
    | Exited rc err \<Rightarrow>
        Print ''Error: ffmpeg execution failed'' \<in> set (fst (main w))
        \<and> Print (''Error message: '' @ err) \<in> set (fst (main w))
    | Raised e \<Rightarrow> False)
   \<and> (\<exists>a. last (fst (main w)) = Input exit_prompt a
          \<and> (case a of
                Some l \<Rightarrow> snd (main w) = Returned \<and> exit_code (snd (main w)) = 0
              | None \<Rightarrow> snd (main w) = Uncaught EOFError))"
  from main_shape [of w] show ?goal
  proof (elim disjE exE conjE)
    assume "list_all preliminary (fst (main w))"
    then show ?goal using ran preliminary_member not_preliminary(1) by blast
  next
    fix pre a
    assume "fst (main w) = pre @ [Input exit_prompt a]" "list_all preliminary pre"
    then show ?goal using ran preliminary_member not_preliminary(1) by auto
  next
    fix pre start_input start_time end_input end_time ls
    assume m: "main w = after pre
           (confirm_and_cut w (path_text w (argv w ! 1)) start_time end_time
              (resolve_output_path w (path_text w (argv w ! 1)) start_input end_input) ls)"
      and pre: "list_all preliminary pre"
    define r where "r = confirm_and_cut w (path_text w (argv w ! 1)) start_time end_time
              (resolve_output_path w (path_text w (argv w ! 1)) start_input end_input) ls"
    have fm: "fst (main w) = pre @ fst r" and sm: "snd (main w) = snd r"
      by (simp_all add: m r_def after_simps)
    from ran pre have "Run cmd \<in> set (fst r)"
      unfolding fm using preliminary_member not_preliminary(1) by auto
    from confirm_and_cut_failed [OF this [unfolded r_def] failed, folded r_def]
    have rep: "(case run w cmd of
            NotFound \<Rightarrow>
              Print ''Error: ffmpeg not found. Please ensure ffmpeg is installed and added to system PATH.''
                \<in> set (fst r)
          | Exited rc err \<Rightarrow>
              Print ''Error: ffmpeg execution failed'' \<in> set (fst r)
              \<and> Print (''Error message: '' @ err) \<in> set (fst r)
          | Raised e \<Rightarrow> False)"
      and fin: "\<exists>a. last (fst r) = Input exit_prompt a
                \<and> snd r = (case a of None \<Rightarrow> Uncaught EOFError | Some l \<Rightarrow> Returned)"
      by blast+
    from \<open>Run cmd \<in> set (fst r)\<close> have ne: "fst r \<noteq> []" by auto
    have 1: "(case run w cmd of
      NotFound \<Rightarrow>
        Print ''Error: ffmpeg not found. Please ensure ffmpeg is installed and added to system PATH.''
          \<in> set (fst (main w))
    | Exited rc err \<Rightarrow>
        Print ''Error: ffmpeg execution failed'' \<in> set (fst (main w))
        \<and> Print (''Error message: '' @ err) \<in> set (fst (main w))
    | Raised e \<Rightarrow> False)"
      using rep unfolding fm by (cases "run w cmd") simp_all
    from fin obtain a where "last (fst r) = Input exit_prompt a"
      "snd r = (case a of None \<Rightarrow> Uncaught EOFError | Some l \<Rightarrow> Returned)" by blast
    then have 2: "\<exists>a. last (fst (main w)) = Input exit_prompt a
          \<and> (case a of
                Some l \<Rightarrow> snd (main w) = Returned \<and> exit_code (snd (main w)) = 0
              | None \<Rightarrow> snd (main w) = Uncaught EOFError)"
      unfolding fm sm using ne by (cases a) auto
    from 1 2 show ?goal by blast
  qed
qed

theorem tool_failure_reported_witness:
  "Run [''ffmpeg'', ''-ss'', ''00:00:45.000'', ''-i'', ''clip.mp4'', ''-t'',
        ''00:00:45.000'', ''-c'', ''copy'', ''-map'', ''0'', ''-avoid_negative_ts'',
        ''make_zero'', ''/opt/mkvcut/clip_45_0130_1.mp4'', ''-y'']
     \<in> set (fst (main example_world))
   \<and> Print ''Error: ffmpeg not found. Please ensure ffmpeg is installed and added to system PATH.''
        \<in> set (fst (main example_world))
   \<and> last (fst (main example_world)) = Input exit_prompt (Some [])
   \<and> snd (main example_world) = Returned
   \<and> exit_code (snd (main example_world)) = 0"
proof -
  let ?cmd = "[''ffmpeg'', ''-ss'', ''00:00:45.000'', ''-i'', ''clip.mp4'', ''-t'',
        ''00:00:45.000'', ''-c'', ''copy'', ''-map'', ''0'', ''-avoid_negative_ts'',
        ''make_zero'', ''/opt/mkvcut/clip_45_0130_1.mp4'', ''-y'']"
  have ran: "Run ?cmd \<in> set (fst (main example_world))"
    by (simp add: example_world_run)
  have failed: "run example_world ?cmd = NotFound"
    by (simp add: example_world_def)
  have l: "last (fst (main example_world)) = Input exit_prompt (Some [])"
    by (simp add: example_world_run)
  from tool_failure_reported [of ?cmd example_world] ran failed l
  show ?thesis by auto
qed

lemma example_world_input_ends:
  "main (example_world\<lparr>stdin := [''45'', ''0130'', []]\<rparr>) =
     ([Print ''Input file: clip.mp4'',
       Print ''File size: 1.00 MB'',
       Input start_prompt (Some ''45''),
       Input end_prompt (Some ''0130''),
       Print (nl @ ''Start time: 00:00:45.000''),
       Print ''End time: 00:01:30.000'',
       Print ''Duration: 00:00:45.000'',
       Print (''Output file: /opt/mkvcut/clip_45_0130_1.mp4'' @ nl),
       Input confirm_prompt (Some []),
       Print (nl @ ''Executing ffmpeg command (fast copy mode, no re-encoding)...''),
       Print (''Command: ffmpeg -ss 00:00:45.000 -i clip.mp4 -t 00:00:45.000 -c copy -map 0 -avoid_negative_ts make_zero /opt/mkvcut/clip_45_0130_1.mp4 -y'' @ nl),
       Run [''ffmpeg'', ''-ss'', ''00:00:45.000'', ''-i'', ''clip.mp4'', ''-t'',
            ''00:00:45.000'', ''-c'', ''copy'', ''-map'', ''0'', ''-avoid_negative_ts'',
            ''make_zero'', ''/opt/mkvcut/clip_45_0130_1.mp4'', ''-y''],
       Print ''Error: ffmpeg not found. Please ensure ffmpeg is installed and added to system PATH.'',
       Input exit_prompt None],
      Uncaught EOFError)"
  by (simp add: run_defs example_world_def)

text \<open>
  The counterexample to C5 as it is worded: the tool is not found, the failure is
  reported, and the input ends before the final pause, so the program terminates with
  the uncaught EOFError and the exit code 1, not 0.
\<close>

theorem tool_failure_exit_code_counterexample:
  "Run [''ffmpeg'', ''-ss'', ''00:00:45.000'', ''-i'', ''clip.mp4'', ''-t'',
        ''00:00:45.000'', ''-c'', ''copy'', ''-map'', ''0'', ''-avoid_negative_ts'',
        ''make_zero'', ''/opt/mkvcut/clip_45_0130_1.mp4'', ''-y'']
     \<in> set (fst (main (example_world\<lparr>stdin := [''45'', ''0130'', []]\<rparr>)))
   \<and> run (example_world\<lparr>stdin := [''45'', ''0130'', []]\<rparr>)
         [''ffmpeg'', ''-ss'', ''00:00:45.000'', ''-i'', ''clip.mp4'', ''-t'',
          ''00:00:45.000'', ''-c'', ''copy'', ''-map'', ''0'', ''-avoid_negative_ts'',
          ''make_zero'', ''/opt/mkvcut/clip_45_0130_1.mp4'', ''-y''] = NotFound
   \<and> snd (main (example_world\<lparr>stdin := [''45'', ''0130'', []]\<rparr>)) = Uncaught EOFError
   \<and> exit_code (snd (main (example_world\<lparr>stdin := [''45'', ''0130'', []]\<rparr>))) = 1"
  by (simp add: example_world_input_ends) (simp add: example_world_def)

section \<open>The output path and the invocation\<close>

text \<open>
  The specification's sequence of candidate names: in the directory, the name
  \<^verbatim>\<open>{stem}_{rawStartText}_{rawEndText}{suffix}\<close> is candidate 0, and candidate \<open>k\<close>
  for \<open>k > 0\<close> has \<^verbatim>\<open>_k\<close> before the suffix.
\<close>

definition spec_candidate ::
  "char \<Rightarrow> string \<Rightarrow> string \<Rightarrow> string \<Rightarrow> string \<Rightarrow> string \<Rightarrow> nat \<Rightarrow> string" where
  "spec_candidate separator directory stem suffix rawStartText rawEndText k =
     joinpath separator directory
       (stem @ ''_'' @ rawStartText @ ''_'' @ rawEndText
          @ (if k = 0 then [] else ''_'' @ str_nat k) @ suffix)"

section \<open>Facts about the output path and the invocation\<close>

lemma counter_loop_result:
  fixes fs s d st a e su
  defines "numbered \<equiv> \<lambda>k. joinpath s d (st @ ''_'' @ a @ ''_'' @ e @ ''_'' @ str_nat k @ su)"
  shows "(p \<notin> set fs \<and> counter_loop fs s d st a e su p c = p)
         \<or> (p \<in> set fs \<and>
              (\<exists>k\<ge>c. counter_loop fs s d st a e su p c = numbered k
                 \<and> numbered k \<notin> set fs
                 \<and> (\<forall>j. c \<le> j \<and> j < k \<longrightarrow> numbered j \<in> set fs)))"
  unfolding numbered_def
proof (induction fs s d st a e su p c rule: counter_loop.induct)
  case (1 fs s d st a e su p c)
  let ?n = "\<lambda>k. joinpath s d (st @ ''_'' @ a @ ''_'' @ e @ ''_'' @ str_nat k @ su)"
  show ?case
  proof (cases "p \<in> set fs")
    case False
    then show ?thesis by (subst counter_loop.simps) simp
  next
    case True
    have step: "counter_loop fs s d st a e su p c = counter_loop fs s d st a e su (?n c) (c + 1)"
      using True by (subst counter_loop.simps) simp
    from "1.IH" [OF True]
    consider (free) "?n c \<notin> set fs" "counter_loop fs s d st a e su (?n c) (c + 1) = ?n c"
      | (taken) k where "?n c \<in> set fs" "c + 1 \<le> k"
          "counter_loop fs s d st a e su (?n c) (c + 1) = ?n k" "?n k \<notin> set fs"
          "\<forall>j. c + 1 \<le> j \<and> j < k \<longrightarrow> ?n j \<in> set fs"
      by blast
    then show ?thesis
    proof cases
      case free
      have "\<forall>j. c \<le> j \<and> j < c \<longrightarrow> ?n j \<in> set fs" by auto
      moreover have "counter_loop fs s d st a e su p c = ?n c"
        using step free(2) by simp
      ultimately have "c \<le> c \<and> counter_loop fs s d st a e su p c = ?n c \<and> ?n c \<notin> set fs
          \<and> (\<forall>j. c \<le> j \<and> j < c \<longrightarrow> ?n j \<in> set fs)"
        using free(1) by blast
      then show ?thesis using True by blast
    next
      case taken
      have "\<forall>j. c \<le> j \<and> j < k \<longrightarrow> ?n j \<in> set fs"
      proof (intro allI impI)
        fix j assume "c \<le> j \<and> j < k"
        then have "j = c \<or> (c + 1 \<le> j \<and> j < k)" by linarith
        then show "?n j \<in> set fs" using taken(1,5) by blast
      qed
      moreover have "c \<le> k" using taken(2) by simp
      moreover have "counter_loop fs s d st a e su p c = ?n k"
        using step taken(3) by simp
      ultimately have "c \<le> k \<and> counter_loop fs s d st a e su p c = ?n k \<and> ?n k \<notin> set fs
          \<and> (\<forall>j. c \<le> j \<and> j < k \<longrightarrow> ?n j \<in> set fs)"
        using taken(4) by blast
      then show ?thesis using True by blast
    qed
  qed
qed

lemma resolve_output_path_least:
  fixes w p a e
  defines "cand \<equiv> spec_candidate (os_sep w) (get_base_path w) (path_stem w p) (path_suffix w p) a e"
  shows "\<exists>k. resolve_output_path w p a e = cand k
            \<and> cand k \<notin> set (files w)
            \<and> (\<forall>j<k. cand j \<in> set (files w))"
proof -
  let ?s = "os_sep w" and ?d = "get_base_path w"
  let ?st = "path_stem w p" and ?su = "path_suffix w p"
  let ?base = "joinpath ?s ?d (?st @ ''_'' @ a @ ''_'' @ e @ ?su)"
  let ?n = "\<lambda>k. joinpath ?s ?d (?st @ ''_'' @ a @ ''_'' @ e @ ''_'' @ str_nat k @ ?su)"
  have r: "resolve_output_path w p a e = counter_loop (files w) ?s ?d ?st a e ?su ?base 1"
    by (simp add: resolve_output_path_def Let_def)
  have c0: "cand 0 = ?base" by (simp add: cand_def spec_candidate_def)
  have ck: "0 < k \<Longrightarrow> cand k = ?n k" for k
    by (simp add: cand_def spec_candidate_def)
  from counter_loop_result [of ?base "files w" ?s ?d ?st a e ?su 1]
  consider (free) "?base \<notin> set (files w)" "resolve_output_path w p a e = ?base"
    | (taken) k where "?base \<in> set (files w)" "1 \<le> k"
        "resolve_output_path w p a e = ?n k" "?n k \<notin> set (files w)"
        "\<forall>j. 1 \<le> j \<and> j < k \<longrightarrow> ?n j \<in> set (files w)"
    unfolding r by blast
  then show ?thesis
  proof cases
    case free
    have "\<forall>j<(0::nat). cand j \<in> set (files w)" by simp
    moreover have "resolve_output_path w p a e = cand 0" using free(2) c0 by simp
    moreover have "cand 0 \<notin> set (files w)" using free(1) c0 by simp
    ultimately show ?thesis by blast
  next
    case taken
    have "\<forall>j<k. cand j \<in> set (files w)"
    proof (intro allI impI)
      fix j assume "j < k"
      show "cand j \<in> set (files w)"
      proof (cases "j = 0")
        case True
        then show ?thesis using taken(1) c0 by simp
      next
        case False
        then have "1 \<le> j \<and> j < k" using \<open>j < k\<close> by simp
        then have "?n j \<in> set (files w)" using taken(5) by blast
        then show ?thesis using False ck [of j] by simp
      qed
    qed
    moreover have "resolve_output_path w p a e = cand k"
      using taken(2,3) ck [of k] by simp
    moreover have "cand k \<notin> set (files w)"
      using taken(2,4) ck [of k] by simp
    ultimately show ?thesis by blast
  qed
qed

lemma preliminary_no_run: "list_all preliminary pre \<Longrightarrow> Run cmd \<notin> set pre"
  using preliminary_member not_preliminary(1) by blast

lemma main_run:
  assumes "Run cmd \<in> set (fst (main w))"
  shows "\<exists>start_input start_time end_input end_time.
           cmd = ffmpeg_cmd w (path_text w (argv w ! 1)) start_time end_time
                   (resolve_output_path w (path_text w (argv w ! 1)) start_input end_input)
           \<and> parse_time start_input = Inr start_time
           \<and> parse_time end_input = Inr end_time
           \<and> 0 \<le> start_time \<and> start_time < end_time"
proof -
  from main_shape [of w] show ?thesis
  proof (elim disjE exE conjE)
    assume "list_all preliminary (fst (main w))"
    then show ?thesis using assms preliminary_member not_preliminary(1) by blast
  next
    fix pre a
    assume "fst (main w) = pre @ [Input exit_prompt a]" "list_all preliminary pre"
    then have "Run cmd \<in> set pre" "Run cmd \<notin> set pre"
      using assms preliminary_no_run by auto
    then show ?thesis by blast
  next
    fix pre start_input start_time end_input end_time ls
    assume m: "main w = after pre
           (confirm_and_cut w (path_text w (argv w ! 1)) start_time end_time
              (resolve_output_path w (path_text w (argv w ! 1)) start_input end_input) ls)"
      and pre: "list_all preliminary pre"
      and facts: "parse_time start_input = Inr start_time" "parse_time end_input = Inr end_time"
        "0 \<le> start_time" "start_time < end_time"
    from assms pre have "Run cmd \<in> set (fst (confirm_and_cut w (path_text w (argv w ! 1))
        start_time end_time
        (resolve_output_path w (path_text w (argv w ! 1)) start_input end_input) ls))"
      unfolding m after_simps using preliminary_no_run by auto
    then have "cmd = ffmpeg_cmd w (path_text w (argv w ! 1)) start_time end_time
                   (resolve_output_path w (path_text w (argv w ! 1)) start_input end_input)"
      using confirm_and_cut_run by blast
    with facts show ?thesis by blast
  qed
qed

lemma ffmpeg_cmd_nth:
  "ffmpeg_cmd w input_path start_time end_time output_path ! 1 = ''-ss''"
  "ffmpeg_cmd w input_path start_time end_time output_path ! 2 = format_time (of_int start_time)"
  "ffmpeg_cmd w input_path start_time end_time output_path ! 3 = ''-i''"
  "ffmpeg_cmd w input_path start_time end_time output_path ! 4 = input_path"
  "ffmpeg_cmd w input_path start_time end_time output_path ! 5 = ''-t''"
  "ffmpeg_cmd w input_path start_time end_time output_path ! 6
     = format_time (of_int (end_time - start_time))"
  "ffmpeg_cmd w input_path start_time end_time output_path ! 13 = output_path"
  "length (ffmpeg_cmd w input_path start_time end_time output_path) = 15"
  by (simp_all add: ffmpeg_cmd_def Let_def)

lemma start_loop_kept:
  "start_loop ls = (evs, Some (start_input, start_time, rest)) \<Longrightarrow>
     \<exists>skipped l pre. ls = skipped @ l # rest \<and> evs = pre @ [Input start_prompt (Some l)]
        \<and> start_input = strip l \<and> parse_time (strip l) = Inr start_time"
proof (induction ls arbitrary: evs)
  case Nil
  then show ?case by simp
next
  case (Cons l0 ls)
  obtain evs' r' where rec: "start_loop ls = (evs', r')" by (cases "start_loop ls")
  show ?case
  proof (cases "parse_time (strip l0)")
    case (Inl err)
    with Cons.prems rec have r': "r' = Some (start_input, start_time, rest)"
      and evs: "evs = Input start_prompt (Some l0)
          # Print (''Error: Invalid time format - '' @ error_text err) # evs'"
      by simp_all
    from Cons.IH [OF rec [unfolded r']] obtain skipped l pre where
      "ls = skipped @ l # rest" "evs' = pre @ [Input start_prompt (Some l)]"
      "start_input = strip l" "parse_time (strip l) = Inr start_time" by blast
    then have "l0 # ls = (l0 # skipped) @ l # rest
        \<and> evs = (Input start_prompt (Some l0)
              # Print (''Error: Invalid time format - '' @ error_text err) # pre)
              @ [Input start_prompt (Some l)]
        \<and> start_input = strip l \<and> parse_time (strip l) = Inr start_time"
      using evs by simp
    then show ?thesis by blast
  next
    case (Inr v)
    then have "0 \<le> v" using parse_time_Inr_bounds by blast
    with Cons.prems Inr have "l0 # ls = [] @ l0 # rest
        \<and> evs = [] @ [Input start_prompt (Some l0)]
        \<and> start_input = strip l0 \<and> parse_time (strip l0) = Inr start_time"
      by simp
    then show ?thesis by blast
  qed
qed

lemma end_loop_kept:
  "end_loop start_time ls = (evs, Some (end_input, end_time, rest)) \<Longrightarrow>
     \<exists>skipped l pre. ls = skipped @ l # rest \<and> evs = pre @ [Input end_prompt (Some l)]
        \<and> end_input = strip l \<and> parse_time (strip l) = Inr end_time"
proof (induction ls arbitrary: evs)
  case Nil
  then show ?case by simp
next
  case (Cons l0 ls)
  obtain evs' r' where rec: "end_loop start_time ls = (evs', r')"
    by (cases "end_loop start_time ls")
  have again: ?case
    if r': "r' = Some (end_input, end_time, rest)" and evs: "evs = a # b # evs'" for a b
  proof -
    from Cons.IH [OF rec [unfolded r']] obtain skipped l pre where
      "ls = skipped @ l # rest" "evs' = pre @ [Input end_prompt (Some l)]"
      "end_input = strip l" "parse_time (strip l) = Inr end_time" by blast
    then have "l0 # ls = (l0 # skipped) @ l # rest
        \<and> evs = (a # b # pre) @ [Input end_prompt (Some l)]
        \<and> end_input = strip l \<and> parse_time (strip l) = Inr end_time"
      using evs by simp
    then show ?thesis by blast
  qed
  show ?case
  proof (cases "parse_time (strip l0)")
    case (Inl err)
    with Cons.prems rec have "r' = Some (end_input, end_time, rest)"
      and "evs = Input end_prompt (Some l0)
          # Print (''Error: Invalid time format - '' @ error_text err) # evs'"
      by simp_all
    then show ?thesis by (rule again)
  next
    case (Inr v)
    show ?thesis
    proof (cases "v \<le> start_time")
      case True
      with Cons.prems rec Inr have "r' = Some (end_input, end_time, rest)"
        and "evs = Input end_prompt (Some l0)
            # Print ''Error: End time must be greater than start time'' # evs'"
        by simp_all
      then show ?thesis by (rule again)
    next
      case False
      with Cons.prems Inr have "l0 # ls = [] @ l0 # rest
          \<and> evs = [] @ [Input end_prompt (Some l0)]
          \<and> end_input = strip l0 \<and> parse_time (strip l0) = Inr end_time"
        by simp
      then show ?thesis by blast
    qed
  qed
qed

lemma main_prints_output:
  assumes "2 \<le> length (argv w)"
    and "path_exists w (path_text w (argv w ! 1))"
    and "is_file w (path_text w (argv w ! 1))"
    and "start_loop (stdin w) = (evs1, Some (start_input, start_time, ls1))"
    and "end_loop start_time ls1 = (evs2, Some (end_input, end_time, ls2))"
  shows "Print (''Output file: ''
           @ resolve_output_path w (path_text w (argv w ! 1)) start_input end_input @ nl)
         \<in> set (fst (main w))"
  using assms by (simp add: main_def after_def Let_def)

lemma resolve_output_path_name:
  "\<exists>t. resolve_output_path w p a e
         = joinpath (os_sep w) (get_base_path w)
             (path_stem w p @ ''_'' @ a @ ''_'' @ e @ t @ path_suffix w p)"
proof -
  from resolve_output_path_least [of w p a e] obtain k where
    "resolve_output_path w p a e
       = spec_candidate (os_sep w) (get_base_path w) (path_stem w p) (path_suffix w p) a e k"
    by blast
  then have "resolve_output_path w p a e
         = joinpath (os_sep w) (get_base_path w)
             (path_stem w p @ ''_'' @ a @ ''_'' @ e
                @ (if k = 0 then [] else ''_'' @ str_nat k) @ path_suffix w p)"
    by (simp add: spec_candidate_def)
  then show ?thesis by blast
qed

lemma joinpath_inject: "joinpath s d m = joinpath s d n \<Longrightarrow> m = n"
  by (simp add: joinpath_def split: if_splits)

lemma raw_text_distinct:
  "resolve_output_path w p ''0132'' e \<noteq> resolve_output_path w p ''000132'' e"
proof
  assume eq: "resolve_output_path w p ''0132'' e = resolve_output_path w p ''000132'' e"
  obtain t where t: "resolve_output_path w p ''0132'' e
         = joinpath (os_sep w) (get_base_path w)
             (path_stem w p @ ''_'' @ ''0132'' @ ''_'' @ e @ t @ path_suffix w p)"
    using resolve_output_path_name by blast
  obtain u where u: "resolve_output_path w p ''000132'' e
         = joinpath (os_sep w) (get_base_path w)
             (path_stem w p @ ''_'' @ ''000132'' @ ''_'' @ e @ u @ path_suffix w p)"
    using resolve_output_path_name by blast
  from eq t u have "path_stem w p @ ''_'' @ ''0132'' @ ''_'' @ e @ t @ path_suffix w p
      = path_stem w p @ ''_'' @ ''000132'' @ ''_'' @ e @ u @ path_suffix w p"
    using joinpath_inject by metis
  then show False by simp
qed

lemma parse_time_0200: "parse_time ''0200'' = Inr 120"
  by code_simp

section \<open>The claims about the output path and the invocation\<close>

text \<open>
  C3. The output path resolver never returns a path that exists. It first tries the
  name \<^verbatim>\<open>{stem}_{start}_{end}{suffix}\<close> in the directory of the program, and as long
  as the candidate exists it puts _1, _2, ... before the suffix: the result is the first
  candidate of the specification's sequence that does not exist. In particular, when
  candidate 0 exists and candidate 1 does not, the result is candidate 1 (in the
  witness clip_010000_020000.mp4 exists and clip_010000_020000_1.mp4 is chosen). The
  output path that a run of \<open>main\<close> hands to the tool, argument 13 of the command,
  is resolved this way and does not exist.
\<close>

theorem output_path_unused:
  "(\<exists>k. resolve_output_path w p a e
          = spec_candidate (os_sep w) (get_base_path w) (path_stem w p) (path_suffix w p) a e k
        \<and> (\<forall>j<k. path_exists w
               (spec_candidate (os_sep w) (get_base_path w) (path_stem w p) (path_suffix w p)
                  a e j)))
   \<and> \<not> path_exists w (resolve_output_path w p a e)
   \<and> (path_exists w
         (spec_candidate (os_sep w) (get_base_path w) (path_stem w p) (path_suffix w p) a e 0)
       \<and> \<not> path_exists w
         (spec_candidate (os_sep w) (get_base_path w) (path_stem w p) (path_suffix w p) a e 1)
       \<longrightarrow> resolve_output_path w p a e
            = spec_candidate (os_sep w) (get_base_path w) (path_stem w p) (path_suffix w p)
                a e 1)
   \<and> (Run cmd \<in> set (fst (main w)) \<longrightarrow> \<not> path_exists w (cmd ! 13))"
proof -
  define cand where
    "cand = spec_candidate (os_sep w) (get_base_path w) (path_stem w p) (path_suffix w p) a e"
  from resolve_output_path_least [of w p a e] obtain k where
    r: "resolve_output_path w p a e = cand k" and free: "cand k \<notin> set (files w)"
    and below: "\<forall>j<k. cand j \<in> set (files w)"
    unfolding cand_def by blast
  have 1: "\<exists>k. resolve_output_path w p a e = cand k \<and> (\<forall>j<k. path_exists w (cand j))"
    using r below by (auto simp: path_exists_def)
  have 2: "\<not> path_exists w (resolve_output_path w p a e)"
    using r free by (simp add: path_exists_def)
  have 3: "resolve_output_path w p a e = cand 1"
    if "path_exists w (cand 0)" and "\<not> path_exists w (cand 1)"
  proof -
    have "k \<noteq> 0"
    proof
      assume "k = 0"
      with free have "cand 0 \<notin> set (files w)" by simp
      with that(1) show False by (simp add: path_exists_def)
    qed
    moreover have "\<not> 1 < k"
    proof
      assume "1 < k"
      with below have "cand 1 \<in> set (files w)" by blast
      with that(2) show False by (simp add: path_exists_def)
    qed
    ultimately have "k = 1" by linarith
    then show ?thesis using r by simp
  qed
  have 4: "\<not> path_exists w (cmd ! 13)" if "Run cmd \<in> set (fst (main w))"
  proof -
    from main_run [OF that] obtain start_input start_time end_input end_time where
      "cmd = ffmpeg_cmd w (path_text w (argv w ! 1)) start_time end_time
               (resolve_output_path w (path_text w (argv w ! 1)) start_input end_input)"
      by blast
    then have "cmd ! 13 = resolve_output_path w (path_text w (argv w ! 1)) start_input end_input"
      by (simp only: ffmpeg_cmd_nth)
    moreover have "resolve_output_path w (path_text w (argv w ! 1)) start_input end_input
        \<notin> set (files w)"
      using resolve_output_path_least [of w "path_text w (argv w ! 1)" start_input end_input]
      by auto
    ultimately show ?thesis by (simp add: path_exists_def)
  qed
  from 1 2 3 4 show ?thesis unfolding cand_def by blast
qed

theorem output_path_unused_witness:
  "path_exists
     (example_world\<lparr>files := [''clip.mp4'', ''/opt/mkvcut/clip_010000_020000.mp4'']\<rparr>)
     ''/opt/mkvcut/clip_010000_020000.mp4''
   \<and> \<not> path_exists
     (example_world\<lparr>files := [''clip.mp4'', ''/opt/mkvcut/clip_010000_020000.mp4'']\<rparr>)
     ''/opt/mkvcut/clip_010000_020000_1.mp4''
   \<and> resolve_output_path
     (example_world\<lparr>files := [''clip.mp4'', ''/opt/mkvcut/clip_010000_020000.mp4'']\<rparr>)
     ''clip.mp4'' ''010000'' ''020000'' = ''/opt/mkvcut/clip_010000_020000_1.mp4''"
proof -
  define W where
    "W = example_world\<lparr>files := [''clip.mp4'', ''/opt/mkvcut/clip_010000_020000.mp4'']\<rparr>"
  have c0: "spec_candidate (os_sep W) (get_base_path W) (path_stem W ''clip.mp4'')
      (path_suffix W ''clip.mp4'') ''010000'' ''020000'' 0
        = ''/opt/mkvcut/clip_010000_020000.mp4''"
    by (simp add: W_def example_world_def spec_candidate_def joinpath_def get_base_path_def)
  have c1: "spec_candidate (os_sep W) (get_base_path W) (path_stem W ''clip.mp4'')
      (path_suffix W ''clip.mp4'') ''010000'' ''020000'' 1
        = ''/opt/mkvcut/clip_010000_020000_1.mp4''"
    by (simp add: W_def example_world_def spec_candidate_def joinpath_def get_base_path_def
        str_nat_examples)
  have e0: "path_exists W ''/opt/mkvcut/clip_010000_020000.mp4''"
    by (simp add: W_def example_world_def path_exists_def)
  have e1: "\<not> path_exists W ''/opt/mkvcut/clip_010000_020000_1.mp4''"
    by (simp add: W_def example_world_def path_exists_def)
  from output_path_unused [of W "''clip.mp4''" "''010000''" "''020000''"] e0 e1
  have "resolve_output_path W ''clip.mp4'' ''010000'' ''020000''
      = ''/opt/mkvcut/clip_010000_020000_1.mp4''"
    unfolding c0 c1 by blast
  with e0 e1 show ?thesis unfolding W_def by blast
qed

text \<open>
  C6. The output file name is made of the text of the start and of the end as the
  user typed them, stripped, not of the parsed values: the resolved path is the stem,
  "_", the start text, "_", the end text, the counter if any, and the suffix, in the
  directory of the program; the texts that the two loops keep are the lines they
  accepted, stripped; and a run that gets that far prints the path resolved from
  them. "0132" and "000132" parse to the same time code, 92 seconds, and never give the
  same path.
\<close>

theorem output_name_raw_text:
  "(\<exists>t. resolve_output_path w p a e
          = joinpath (os_sep w) (get_base_path w)
              (path_stem w p @ ''_'' @ a @ ''_'' @ e @ t @ path_suffix w p))
   \<and> (2 \<le> length (argv w)
        \<and> path_exists w (path_text w (argv w ! 1)) \<and> is_file w (path_text w (argv w ! 1))
        \<and> start_loop (stdin w) = (evs1, Some (start_input, start_time, ls1))
        \<and> end_loop start_time ls1 = (evs2, Some (end_input, end_time, ls2))
      \<longrightarrow>
        Print (''Output file: ''
                 @ resolve_output_path w (path_text w (argv w ! 1)) start_input end_input @ nl)
          \<in> set (fst (main w))
        \<and> (\<exists>skipped l. stdin w = skipped @ l # ls1 \<and> start_input = strip l
               \<and> parse_time (strip l) = Inr start_time)
        \<and> (\<exists>skipped l. ls1 = skipped @ l # ls2 \<and> end_input = strip l
               \<and> parse_time (strip l) = Inr end_time))
   \<and> parse_time ''0132'' = Inr 92 \<and> parse_time ''000132'' = Inr 92
   \<and> resolve_output_path w p ''0132'' e \<noteq> resolve_output_path w p ''000132'' e"
proof (intro conjI impI)
  show "\<exists>t. resolve_output_path w p a e
          = joinpath (os_sep w) (get_base_path w)
              (path_stem w p @ ''_'' @ a @ ''_'' @ e @ t @ path_suffix w p)"
    by (rule resolve_output_path_name)
next
  assume h: "2 \<le> length (argv w)
        \<and> path_exists w (path_text w (argv w ! 1)) \<and> is_file w (path_text w (argv w ! 1))
        \<and> start_loop (stdin w) = (evs1, Some (start_input, start_time, ls1))
        \<and> end_loop start_time ls1 = (evs2, Some (end_input, end_time, ls2))"
  then show "Print (''Output file: ''
                 @ resolve_output_path w (path_text w (argv w ! 1)) start_input end_input @ nl)
          \<in> set (fst (main w))"
    by (intro main_prints_output) blast+
  from h start_loop_kept [of "stdin w" evs1 start_input start_time ls1]
  show "\<exists>skipped l. stdin w = skipped @ l # ls1 \<and> start_input = strip l
               \<and> parse_time (strip l) = Inr start_time"
    by blast
  from h end_loop_kept [of start_time ls1 evs2 end_input end_time ls2]
  show "\<exists>skipped l. ls1 = skipped @ l # ls2 \<and> end_input = strip l
               \<and> parse_time (strip l) = Inr end_time"
    by blast
next
  show "parse_time ''0132'' = Inr 92" "parse_time ''000132'' = Inr 92"
    by (rule parse_time_examples)+
next
  show "resolve_output_path w p ''0132'' e \<noteq> resolve_output_path w p ''000132'' e"
    by (rule raw_text_distinct)
qed

theorem output_name_raw_text_witness:
  "Print (''Output file: /opt/mkvcut/clip_0132_0200.mp4'' @ nl)
     \<in> set (fst (main (example_world\<lparr>stdin := [''0132'', ''0200'', ''n'']\<rparr>)))
   \<and> Print (''Output file: /opt/mkvcut/clip_000132_0200.mp4'' @ nl)
     \<in> set (fst (main (example_world\<lparr>stdin := [''000132'', ''0200'', ''n'']\<rparr>)))"
proof -
  define A where "A = example_world\<lparr>stdin := [''0132'', ''0200'', ''n'']\<rparr>"
  define B where "B = example_world\<lparr>stdin := [''000132'', ''0200'', ''n'']\<rparr>"
  have a: "2 \<le> length (argv A)
        \<and> path_exists A (path_text A (argv A ! 1)) \<and> is_file A (path_text A (argv A ! 1))
        \<and> start_loop (stdin A)
            = ([Input start_prompt (Some ''0132'')], Some (''0132'', 92, [''0200'', ''n'']))
        \<and> end_loop 92 [''0200'', ''n'']
            = ([Input end_prompt (Some ''0200'')], Some (''0200'', 120, [''n'']))"
    by (simp add: A_def example_world_def path_exists_def strip_examples parse_time_examples
        parse_time_0200 Let_def)
  have b: "2 \<le> length (argv B)
        \<and> path_exists B (path_text B (argv B ! 1)) \<and> is_file B (path_text B (argv B ! 1))
        \<and> start_loop (stdin B)
            = ([Input start_prompt (Some ''000132'')], Some (''000132'', 92, [''0200'', ''n'']))
        \<and> end_loop 92 [''0200'', ''n'']
            = ([Input end_prompt (Some ''0200'')], Some (''0200'', 120, [''n'']))"
    by (simp add: B_def example_world_def path_exists_def strip_examples parse_time_examples
        parse_time_0200 Let_def)
  have ia: "path_text A (argv A ! 1) = ''clip.mp4''"
    by (simp add: A_def example_world_def)
  have ib: "path_text B (argv B ! 1) = ''clip.mp4''"
    by (simp add: B_def example_world_def)
  have ra: "resolve_output_path A ''clip.mp4'' ''0132'' ''0200''
      = ''/opt/mkvcut/clip_0132_0200.mp4''"
    by (simp add: A_def example_world_def resolve_output_path_def get_base_path_def
        joinpath_def counter_loop.simps Let_def)
  have rb: "resolve_output_path B ''clip.mp4'' ''000132'' ''0200''
      = ''/opt/mkvcut/clip_000132_0200.mp4''"
    by (simp add: B_def example_world_def resolve_output_path_def get_base_path_def
        joinpath_def counter_loop.simps Let_def)
  from output_name_raw_text [of A "[]" "[]" "[]" "[Input start_prompt (Some ''0132'')]"
      "''0132''" 92 "[''0200'', ''n'']" "[Input end_prompt (Some ''0200'')]" "''0200''" 120
      "[''n'']"] a
  have 1: "Print (''Output file: ''
      @ resolve_output_path A (path_text A (argv A ! 1)) ''0132'' ''0200'' @ nl)
        \<in> set (fst (main A))"
    by blast
  from output_name_raw_text [of B "[]" "[]" "[]" "[Input start_prompt (Some ''000132'')]"
      "''000132''" 92 "[''0200'', ''n'']" "[Input end_prompt (Some ''0200'')]" "''0200''" 120
      "[''n'']"] b
  have 2: "Print (''Output file: ''
      @ resolve_output_path B (path_text B (argv B ! 1)) ''000132'' ''0200'' @ nl)
        \<in> set (fst (main B))"
    by blast
  from 1 [unfolded ia ra] have 3: "Print (''Output file: /opt/mkvcut/clip_0132_0200.mp4'' @ nl)
      \<in> set (fst (main A))"
    by simp
  from 2 [unfolded ib rb] have 4: "Print (''Output file: /opt/mkvcut/clip_000132_0200.mp4'' @ nl)
      \<in> set (fst (main B))"
    by simp
  from 3 4 show ?thesis unfolding A_def B_def by (rule conjI)
qed

text \<open>
  C2. The command built for the external tool has the option -ss with the formatted
  start time at the positions 1 and 2, before the option -i and the input at 3 and 4,
  and the option -t at 5 and 6, after the input, with the formatted duration, the end
  minus the start, not the end. Every command that a run of \<open>main\<close> hands to the
  tool has this shape, for the two values parsed from what the user typed. For the
  start "45" and the end "0130" (90 seconds) the seek argument and the duration
  argument are both "00:00:45.000", while the end time would be "00:01:30.000".
\<close>

theorem ffmpeg_cmd_duration:
  "ffmpeg_cmd w input_path start_time end_time output_path ! 1 = ''-ss''
   \<and> ffmpeg_cmd w input_path start_time end_time output_path ! 2
       = format_time (of_int start_time)
   \<and> ffmpeg_cmd w input_path start_time end_time output_path ! 3 = ''-i''
   \<and> ffmpeg_cmd w input_path start_time end_time output_path ! 4 = input_path
   \<and> ffmpeg_cmd w input_path start_time end_time output_path ! 5 = ''-t''
   \<and> ffmpeg_cmd w input_path start_time end_time output_path ! 6
       = format_time (of_int (end_time - start_time))
   \<and> (Run cmd \<in> set (fst (main w)) \<longrightarrow>
        (\<exists>start_input start_time end_input end_time.
            parse_time start_input = Inr start_time \<and> parse_time end_input = Inr end_time
          \<and> start_time < end_time
          \<and> cmd ! 1 = ''-ss'' \<and> cmd ! 2 = format_time (of_int start_time)
          \<and> cmd ! 3 = ''-i'' \<and> cmd ! 4 = path_text w (argv w ! 1)
          \<and> cmd ! 5 = ''-t'' \<and> cmd ! 6 = format_time (of_int (end_time - start_time))))
   \<and> parse_time ''45'' = Inr 45 \<and> parse_time ''0130'' = Inr 90
   \<and> ffmpeg_cmd w input_path 45 90 output_path ! 2 = ''00:00:45.000''
   \<and> ffmpeg_cmd w input_path 45 90 output_path ! 6 = ''00:00:45.000''
   \<and> format_time (of_int 90) = ''00:01:30.000''"
proof -
  have run: "\<exists>start_input start_time end_input end_time.
            parse_time start_input = Inr start_time \<and> parse_time end_input = Inr end_time
          \<and> start_time < end_time
          \<and> cmd ! 1 = ''-ss'' \<and> cmd ! 2 = format_time (of_int start_time)
          \<and> cmd ! 3 = ''-i'' \<and> cmd ! 4 = path_text w (argv w ! 1)
          \<and> cmd ! 5 = ''-t'' \<and> cmd ! 6 = format_time (of_int (end_time - start_time))"
    if "Run cmd \<in> set (fst (main w))"
  proof -
    from main_run [OF that] obtain start_input start_time end_input end_time where
      c: "cmd = ffmpeg_cmd w (path_text w (argv w ! 1)) start_time end_time
               (resolve_output_path w (path_text w (argv w ! 1)) start_input end_input)"
      and p: "parse_time start_input = Inr start_time" "parse_time end_input = Inr end_time"
        "start_time < end_time"
      by blast
    have "cmd ! 1 = ''-ss'' \<and> cmd ! 2 = format_time (of_int start_time)
          \<and> cmd ! 3 = ''-i'' \<and> cmd ! 4 = path_text w (argv w ! 1)
          \<and> cmd ! 5 = ''-t'' \<and> cmd ! 6 = format_time (of_int (end_time - start_time))"
      unfolding c by (simp only: ffmpeg_cmd_nth)
    with p show ?thesis by blast
  qed
  have ex: "ffmpeg_cmd w input_path 45 90 output_path ! 2 = ''00:00:45.000''"
    "ffmpeg_cmd w input_path 45 90 output_path ! 6 = ''00:00:45.000''"
    "format_time (of_int 90) = ''00:01:30.000''"
    by (simp_all add: ffmpeg_cmd_nth format_time_examples)
  note n = ffmpeg_cmd_nth [of w input_path start_time end_time output_path]
  note pe = parse_time_examples(1,4)
  from run have impl: "Run cmd \<in> set (fst (main w)) \<longrightarrow>
        (\<exists>start_input start_time end_input end_time.
            parse_time start_input = Inr start_time \<and> parse_time end_input = Inr end_time
          \<and> start_time < end_time
          \<and> cmd ! 1 = ''-ss'' \<and> cmd ! 2 = format_time (of_int start_time)
          \<and> cmd ! 3 = ''-i'' \<and> cmd ! 4 = path_text w (argv w ! 1)
          \<and> cmd ! 5 = ''-t'' \<and> cmd ! 6 = format_time (of_int (end_time - start_time)))"
    by (rule impI)
  show ?thesis
    by (intro conjI) (rule n(1) n(2) n(3) n(4) n(5) n(6) impl pe ex)+
qed

theorem ffmpeg_cmd_duration_witness:
  "Run [''ffmpeg'', ''-ss'', ''00:00:45.000'', ''-i'', ''clip.mp4'', ''-t'',
        ''00:00:45.000'', ''-c'', ''copy'', ''-map'', ''0'', ''-avoid_negative_ts'',
        ''make_zero'', ''/opt/mkvcut/clip_45_0130_1.mp4'', ''-y'']
     \<in> set (fst (main example_world))
   \<and> (\<exists>start_time end_time.
         ''00:00:45.000'' = format_time (of_int start_time)
       \<and> ''00:00:45.000'' = format_time (of_int (end_time - start_time))
       \<and> start_time < end_time)"
proof -
  let ?cmd = "[''ffmpeg'', ''-ss'', ''00:00:45.000'', ''-i'', ''clip.mp4'', ''-t'',
        ''00:00:45.000'', ''-c'', ''copy'', ''-map'', ''0'', ''-avoid_negative_ts'',
        ''make_zero'', ''/opt/mkvcut/clip_45_0130_1.mp4'', ''-y'']"
  have ran: "Run ?cmd \<in> set (fst (main example_world))"
    by (simp add: example_world_run)
  from ffmpeg_cmd_duration [of example_world "[]" 0 0 "[]" ?cmd] ran
  obtain start_time end_time where
    "?cmd ! 2 = format_time (of_int start_time)"
    "?cmd ! 6 = format_time (of_int (end_time - start_time))" "start_time < end_time"
    by blast
  then have "''00:00:45.000'' = format_time (of_int start_time)
       \<and> ''00:00:45.000'' = format_time (of_int (end_time - start_time))
       \<and> start_time < end_time"
    by simp
  with ran show ?thesis by blast
qed

end
